theory Spec2Isabelle
  imports Complex_Main "HOL-Library.Word" "HOL-Library.Char_ord" "HOL-Library.List_Lexorder"
begin

unbundle bit_operations_syntax

section \<open>The node generator of \<^verbatim>\<open>generate_nodes.py\<close>\<close>

text \<open>
  The program builds a forest of node records, writes them as JSON lines or as a JSON
  array and can export the written file as CSV. This theory embeds its functions and
  settles the properties the specification states about them.

  Conventions of the embedding.
  \<^item> An exception is a value of \<open>error\<close>; a function that can raise returns
    \<open>error + 'a\<close>, with \<open>Inl\<close> for the exception.
  \<^item> Python's \<open>int\<close> is \<open>int\<close>. A Python \<open>float\<close> is a binary64 value: the rational it
    denotes, an infinity or NaN. Its arithmetic rounds every result to the nearest
    binary64 value, a tie to the even one. A float that the program takes as an argument
    is finite and given by the rational it denotes.
  \<^item> A \<open>datetime\<close> is the number of microseconds since the epoch, an \<open>int\<close>.
  \<^item> The program's sources of randomness are inputs of the model. Each call of the
    library returns a value computed from a raw draw supplied from outside, so that
    the theorems quantify over everything the library can return.
\<close>

subsection \<open>Errors\<close>

datatype error =
    SystemExit string
  | IndexError
  | ValueError
  | KeyError
  | AttributeError
  | TypeError
  | JSONDecodeError

subsection \<open>Floats\<close>

text \<open>
  Rounding an exact value to the nearest integer, a tie to the even one, as Python's
  \<^verbatim>\<open>round\<close> and the rounding of binary64 arithmetic do.
\<close>

definition py_round :: "rat \<Rightarrow> int" where
  "py_round x =
     (let f = \<lfloor>x\<rfloor>; d = x - of_int f
      in if d < 1 / 2 then f
         else if 1 / 2 < d then f + 1
         else if even f then f else f + 1)"

text \<open>
  A binary64 value. The two zeros are one value, \<open>Finite 0\<close>: they compare equal and no
  function of the program tells them apart.
\<close>

datatype float = Finite rat | PInf | NInf | NaN

text \<open>\<^verbatim>\<open>int.bit_length\<close>, and the exponent \<open>e\<close> with \<open>2\<^sup>e \<le> x < 2\<^sup>e\<^sup>+\<^sup>1\<close> of a positive \<open>x\<close>.\<close>

fun bit_length :: "nat \<Rightarrow> nat" where
  "bit_length n = (if n = 0 then 0 else Suc (bit_length (n div 2)))"

declare bit_length.simps [simp del]

definition ilog2 :: "rat \<Rightarrow> int" where
  "ilog2 x =
     (let (n, d) = quotient_of x;
          k = int (bit_length (nat n)) - int (bit_length (nat d))
      in if 2 powi k \<le> x then k else k - 1)"

text \<open>
  Rounding to binary64: to 53 significant bits, or to a multiple of \<open>2\<^sup>-\<^sup>1\<^sup>0\<^sup>7\<^sup>4\<close> below the
  normal range, a tie to the even significand; \<open>fl_value\<close> is the rounded value and \<open>fl\<close>
  turns one of magnitude \<open>2\<^sup>1\<^sup>0\<^sup>2\<^sup>4\<close> or more into an infinity.
\<close>

definition fl_value :: "rat \<Rightarrow> rat" where
  "fl_value x =
     (if x = 0 then 0
      else
        let e = max (ilog2 \<bar>x\<bar>) (- 1022);
            q = 2 powi (e - 52)
        in of_int (py_round (x / q)) * q)"

definition fl :: "rat \<Rightarrow> float" where
  "fl x =
     (let y = fl_value x
      in if 2 ^ 1024 \<le> \<bar>y\<bar> then (if 0 < x then PInf else NInf) else Finite y)"

text \<open>The operations \<^verbatim>\<open>-x\<close>, \<^verbatim>\<open>x + y\<close>, \<^verbatim>\<open>x - y\<close>, \<^verbatim>\<open>x * y\<close> and \<^verbatim>\<open>x <= y\<close> on floats.\<close>

fun fneg :: "float \<Rightarrow> float" where
  "fneg (Finite a) = Finite (- a)"
| "fneg PInf = NInf"
| "fneg NInf = PInf"
| "fneg NaN = NaN"

fun fadd :: "float \<Rightarrow> float \<Rightarrow> float" where
  "fadd (Finite a) (Finite b) = fl (a + b)"
| "fadd NaN y = NaN"
| "fadd x NaN = NaN"
| "fadd PInf NInf = NaN"
| "fadd NInf PInf = NaN"
| "fadd PInf y = PInf"
| "fadd NInf y = NInf"
| "fadd x PInf = PInf"
| "fadd x NInf = NInf"

definition fsub :: "float \<Rightarrow> float \<Rightarrow> float" where
  "fsub x y = fadd x (fneg y)"

fun fsign :: "float \<Rightarrow> int" where
  "fsign (Finite a) = (if a = 0 then 0 else if 0 < a then 1 else - 1)"
| "fsign PInf = 1"
| "fsign NInf = - 1"
| "fsign NaN = 0"

fun fmul :: "float \<Rightarrow> float \<Rightarrow> float" where
  "fmul (Finite a) (Finite b) = fl (a * b)"
| "fmul NaN y = NaN"
| "fmul x NaN = NaN"
| "fmul x y =
     (if fsign x * fsign y = 0 then NaN else if 0 < fsign x * fsign y then PInf else NInf)"

fun fle :: "float \<Rightarrow> float \<Rightarrow> bool" where
  "fle (Finite a) (Finite b) \<longleftrightarrow> a \<le> b"
| "fle NaN y \<longleftrightarrow> False"
| "fle x NaN \<longleftrightarrow> False"
| "fle NInf y \<longleftrightarrow> True"
| "fle x PInf \<longleftrightarrow> True"
| "fle x y \<longleftrightarrow> False"

text \<open>
  \<^verbatim>\<open>round(x, 2)\<close>: the binary64 value nearest to \<open>x\<close> rounded to two decimal places, where
  \<open>x\<close> is rounded as the exact value it denotes; an infinity or NaN is returned as it is.
\<close>

fun round2 :: "float \<Rightarrow> float" where
  "round2 (Finite x) = fl (of_int (py_round (x * 100)) / 100)"
| "round2 x = x"

subsection \<open>Library calls\<close>

text \<open>
  \<^verbatim>\<open>random.random()\<close> returns a multiple of \<open>2\<^sup>-\<^sup>5\<^sup>3\<close> in \<open>[0, 1)\<close>; the raw draw is
  the 53-bit numerator.
\<close>

definition random_unit :: "nat \<Rightarrow> rat" where
  "random_unit k = of_nat (k mod 2 ^ 53) / 2 ^ 53"

text \<open>\<^verbatim>\<open>random.uniform(a, b)\<close> is \<^verbatim>\<open>a + (b - a) * self.random()\<close>.\<close>

definition uniform :: "rat \<Rightarrow> rat \<Rightarrow> nat \<Rightarrow> float" where
  "uniform a b k = fadd (Finite a) (fmul (fsub (Finite b) (Finite a)) (Finite (random_unit k)))"

text \<open>
  \<^verbatim>\<open>random.randint(a, b)\<close> returns an integer of \<open>[a, b]\<close> and raises ValueError on
  an empty range. The raw draw selects the element of the range.
\<close>

definition randint :: "int \<Rightarrow> int \<Rightarrow> nat \<Rightarrow> error + int" where
  "randint a b k =
     (if b < a then Inl ValueError else Inr (a + int (k mod nat (b - a + 1))))"

text \<open>
  \<^verbatim>\<open>random.choice(seq)\<close> raises IndexError on an empty sequence and otherwise
  returns one of its elements. The raw draw selects the position.
\<close>

definition choice :: "'a list \<Rightarrow> nat \<Rightarrow> error + 'a" where
  "choice seq k = (if seq = [] then Inl IndexError else Inr (seq ! (k mod length seq)))"

text \<open>\<^verbatim>\<open>xs[i]\<close>: an index below 0 counts from the end, one out of range raises IndexError.\<close>

definition getitem :: "'a list \<Rightarrow> int \<Rightarrow> error + 'a" where
  "getitem xs i =
     (if 0 \<le> i \<and> i < int (length xs) then Inr (xs ! nat i)
      else if i < 0 \<and> - int (length xs) \<le> i then Inr (xs ! nat (int (length xs) + i))
      else Inl IndexError)"

subsection \<open>gen_uuid\<close>

text \<open>
  \<^verbatim>\<open>uuid.uuid4()\<close> reads 16 bytes from \<^verbatim>\<open>os.urandom\<close>, sets the variant and version
  bits, and \<^verbatim>\<open>str\<close> prints the 32 hexadecimal digits in groups of 8-4-4-4-12. The 16
  bytes are the raw draw. They do not come from the module \<^verbatim>\<open>random\<close>.
\<close>

definition uuid4 :: "128 word \<Rightarrow> 128 word" where
  "uuid4 b =
     (let i1 = b AND NOT (push_bit 48 0xc000);
          i2 = i1 OR push_bit 48 0x8000;
          i3 = i2 AND NOT (push_bit 64 0xf000)
      in i3 OR push_bit 76 4)"

definition hexdigit :: "nat \<Rightarrow> char" where
  "hexdigit d = ''0123456789abcdef'' ! (d mod 16)"

definition hex32 :: "128 word \<Rightarrow> string" where
  "hex32 w = map (\<lambda>i. hexdigit (unat (drop_bit (4 * (31 - i)) w))) [0..<32]"

definition uuid_str :: "128 word \<Rightarrow> string" where
  "uuid_str w =
     (let h = hex32 w
      in take 8 h @ ''-'' @ take 4 (drop 8 h) @ ''-'' @ take 4 (drop 12 h) @ ''-'' @
         take 4 (drop 16 h) @ ''-'' @ drop 20 h)"

definition gen_uuid :: "128 word \<Rightarrow> string" where
  "gen_uuid b = uuid_str (uuid4 b)"

subsection \<open>random_timestamp\<close>

text \<open>
  The library functions that read and print a timestamp are parameters: \<open>strptime\<close>
  reads a text in the format \<^verbatim>\<open>ISO_Z\<close> and returns the seconds since the epoch
  (\<open>None\<close> for ValueError; the format has no directive for a fraction of a second, so
  the \<open>datetime\<close> has microsecond 0), and \<open>strftime\<close> prints the directives
  \<^verbatim>\<open>%Y-%m-%dT%H:%M:%S\<close> of \<^verbatim>\<open>ISO_Z\<close> for a number of seconds since the epoch; the
  rest of \<^verbatim>\<open>ISO_Z\<close> is the literal text \<^verbatim>\<open>.000Z\<close>.
\<close>

text \<open>
  \<^verbatim>\<open>delta.total_seconds()\<close> of a difference of \<open>d\<close> microseconds: the quotient of two
  integers, rounded once.
\<close>

definition total_seconds :: "int \<Rightarrow> float" where
  "total_seconds d = fl (of_int d / 1000000)"

text \<open>
  \<^verbatim>\<open>timedelta(seconds=x)\<close> for a float \<open>x\<close>, in microseconds. The constructor splits \<open>x\<close>
  into its integer and fractional part, multiplies the fractional part by \<open>10\<^sup>6\<close> in
  binary64 and rounds the sum to the nearest microsecond, a tie to the even one. For an
  infinity or NaN it raises OverflowError or ValueError; the product of a draw and the
  seconds between two datetimes, which are fewer than \<open>10\<^sup>1\<^sup>5\<close>, is neither, and the
  model has 0 there.
\<close>

definition trunc :: "rat \<Rightarrow> int" where
  "trunc x = (if 0 \<le> x then \<lfloor>x\<rfloor> else \<lceil>x\<rceil>)"

fun timedelta_seconds :: "float \<Rightarrow> int" where
  "timedelta_seconds (Finite x) =
     (let intpart = trunc x;
          fracpart = x - of_int intpart
      in py_round (of_int (intpart * 1000000) + fl_value (1000000 * fracpart)))"
| "timedelta_seconds x = 0"

text \<open>The instant \<open>t\<close> of \<^verbatim>\<open>random_timestamp\<close> after \<^verbatim>\<open>t.replace(microsecond=0, ...)\<close>.\<close>

definition random_instant :: "int \<Rightarrow> int \<Rightarrow> nat \<Rightarrow> int" where
  "random_instant start end k =
     (let delta = end - start;
          total = total_seconds delta;
          r = Finite (random_unit k);
          t = start + timedelta_seconds (fmul r total)
      in t - t mod 1000000)"

definition random_timestamp :: "(int \<Rightarrow> string) \<Rightarrow> int \<Rightarrow> int \<Rightarrow> nat \<Rightarrow> string" where
  "random_timestamp strftime start end k =
     strftime (random_instant start end k div 1000000) @ ''.000Z''"

subsection \<open>generate_nodes\<close>

record node =
  timestamp :: string
  NodeId :: string
  BufferHealth :: float
  SessionId :: string
  Source :: string
  level :: int

text \<open>
  The raw draws one pass of the loop can consume: \<open>rnd\<close> from the module
  \<^verbatim>\<open>random\<close> (for \<^verbatim>\<open>random.uniform\<close>, for the \<^verbatim>\<open>random.random\<close> of the timestamp, for the
  \<^verbatim>\<open>random.random\<close> compared with \<^verbatim>\<open>root_share\<close>, for \<^verbatim>\<open>random.randint\<close> and for
  \<^verbatim>\<open>random.choice\<close>), \<open>ids\<close> from \<^verbatim>\<open>os.urandom\<close> (for the two calls of \<^verbatim>\<open>gen_uuid\<close>).
  A pass that does not reach a call does not look at its draw.
\<close>

record rnd =
  health_draw :: nat
  ts_draw :: nat
  root_draw :: nat
  parent_draw :: nat
  choice_draw :: nat

record ids =
  node_draw :: "128 word"
  session_draw :: "128 word"

text \<open>The two lists the loop appends to.\<close>

record gen_state =
  nodes :: "node list"
  notes_under_max_level :: "node list"

text \<open>Lines 98 to 109: the source and the level of node \<open>i\<close>.\<close>

definition choose_source :: "rat \<Rightarrow> int \<Rightarrow> nat \<Rightarrow> rnd \<Rightarrow> gen_state \<Rightarrow> error + (string \<times> int)" where
  "choose_source root_share max_level_tree i r st =
     (if i = 0 \<or> random_unit (root_draw r) < root_share then Inr (''CDN'', 1)
      else
        case randint 0 (int i - 1) (parent_draw r) of
          Inl e \<Rightarrow> Inl e
        | Inr parent_index \<Rightarrow>
            (case getitem (nodes st) parent_index of
               Inl e \<Rightarrow> Inl e
             | Inr p \<Rightarrow>
                 if level p \<le> max_level_tree - 1 then Inr (NodeId p, level p + 1)
                 else
                   (case choice (notes_under_max_level st) (choice_draw r) of
                      Inl e \<Rightarrow> Inl e
                    | Inr q \<Rightarrow> Inr (NodeId q, level q + 1))))"

text \<open>One pass of the loop, lines 91 to 123.\<close>

definition gen_body ::
  "(int \<Rightarrow> string) \<Rightarrow> rat \<Rightarrow> rat \<Rightarrow> rat \<Rightarrow> int \<Rightarrow> int \<Rightarrow> int \<Rightarrow>
   nat \<Rightarrow> rnd \<Rightarrow> ids \<Rightarrow> gen_state \<Rightarrow> error + gen_state" where
  "gen_body strftime root_share buffer_min buffer_max start_dt end_dt max_level_tree i r u st =
     (let node_id = gen_uuid (node_draw u);
          session_id = gen_uuid (session_draw u);
          buffer_health = round2 (uniform buffer_min buffer_max (health_draw r));
          ts = random_timestamp strftime start_dt end_dt (ts_draw r)
      in case choose_source root_share max_level_tree i r st of
           Inl e \<Rightarrow> Inl e
         | Inr (source, lvl) \<Rightarrow>
             (let to_append = \<lparr>timestamp = ts, NodeId = node_id, BufferHealth = buffer_health,
                                SessionId = session_id, Source = source, level = lvl\<rparr>
              in Inr \<lparr>nodes = nodes st @ [to_append],
                      notes_under_max_level =
                        (if lvl < max_level_tree then notes_under_max_level st @ [to_append]
                         else notes_under_max_level st)\<rparr>))"

text \<open>\<^verbatim>\<open>for i in ...\<close>: the passes in order, stopping at the first exception.\<close>

fun for_each :: "(nat \<Rightarrow> 's \<Rightarrow> error + 's) \<Rightarrow> nat list \<Rightarrow> 's \<Rightarrow> error + 's" where
  "for_each body [] st = Inr st"
| "for_each body (i # is) st =
     (case body i st of Inl e \<Rightarrow> Inl e | Inr st' \<Rightarrow> for_each body is st')"

text \<open>The loop of lines 84 to 123 run for \<open>k\<close> passes: \<^verbatim>\<open>for i in range(k)\<close>.\<close>

definition gen_loop ::
  "(int \<Rightarrow> string) \<Rightarrow> rat \<Rightarrow> rat \<Rightarrow> rat \<Rightarrow> int \<Rightarrow> int \<Rightarrow> int \<Rightarrow>
   (nat \<Rightarrow> rnd) \<Rightarrow> (nat \<Rightarrow> ids) \<Rightarrow> nat \<Rightarrow> error + gen_state" where
  "gen_loop strftime root_share buffer_min buffer_max start_dt end_dt max_level_tree rng ent k =
     for_each
       (\<lambda>i. gen_body strftime root_share buffer_min buffer_max start_dt end_dt max_level_tree
               i (rng i) (ent i))
       [0..<k] \<lparr>nodes = [], notes_under_max_level = []\<rparr>"

text \<open>
  What the run takes from outside the program: the two timestamp functions of the
  library, the draws of the module \<^verbatim>\<open>random\<close> after \<^verbatim>\<open>random.seed(s)\<close> (a function of
  the seed \<open>s\<close>) and without it, and the bytes of \<^verbatim>\<open>os.urandom\<close>. The draws are indexed
  by the pass of the loop that consumes them.
\<close>

record pylib =
  strptime :: "string \<Rightarrow> int option"
  strftime :: "int \<Rightarrow> string"
  seeded :: "int \<Rightarrow> nat \<Rightarrow> rnd"
  unseeded :: "nat \<Rightarrow> rnd"
  urandom :: "nat \<Rightarrow> ids"

definition generate_nodes ::
  "pylib \<Rightarrow> int \<Rightarrow> rat \<Rightarrow> int \<Rightarrow> rat \<Rightarrow> rat \<Rightarrow> string \<Rightarrow> string \<Rightarrow> int \<Rightarrow> int option \<Rightarrow>
   error + node list" where
  "generate_nodes lib n root_share max_children_hint buffer_min buffer_max start_ts end_ts
     max_level_tree seed =
     (let rng = (case seed of None \<Rightarrow> unseeded lib | Some s \<Rightarrow> seeded lib s)
      in case strptime lib start_ts of
           None \<Rightarrow> Inl (SystemExit ''Invalid timestamp format. Use ISO like 2025-07-14T09:51:36.000Z'')
         | Some s \<Rightarrow>
             (case strptime lib end_ts of
                None \<Rightarrow> Inl (SystemExit ''Invalid timestamp format. Use ISO like 2025-07-14T09:51:36.000Z'')
              | Some e \<Rightarrow>
                  (let start_dt = s * 1000000; end_dt = e * 1000000
                   in if end_dt \<le> start_dt then Inl (SystemExit ''--end-ts must be after --start-ts'')
                      else
                        case gen_loop (strftime lib) root_share buffer_min buffer_max start_dt end_dt
                               max_level_tree rng (urandom lib) (nat n) of
                          Inl err \<Rightarrow> Inl err
                        | Inr st \<Rightarrow> Inr (nodes st))))"

section \<open>Writing the records and exporting them as CSV\<close>

text \<open>
  A file is its text after decoding, a \<open>string\<close> whose characters are code points
  below 256. A file is written as it is (the line separator of the system is the
  character 10) and read with universal newlines. The module \<^verbatim>\<open>json\<close> is a parameter: \<open>dumps\<close> prints
  a value on one line, \<open>loads\<close> reads a text (\<open>None\<close> for JSONDecodeError). A CSV file is
  the list of its rows and a row the list of the values handed to \<^verbatim>\<open>csv.writer\<close>, before it
  prints and quotes them. The messages printed on the standard output are left out.
\<close>

subsection \<open>JSON values\<close>

datatype json =
    JNull
  | JBool bool
  | JInt int
  | JFloat float
  | JStr string
  | JArr "json list"
  | JObj "(string \<times> json) list"

text \<open>The dictionary \<^verbatim>\<open>to_append\<close> of lines 111 to 118, its keys in the order written.\<close>

definition as_dict :: "node \<Rightarrow> json" where
  "as_dict row =
     JObj [(''timestamp'', JStr (timestamp row)), (''NodeId'', JStr (NodeId row)),
           (''BufferHealth'', JFloat (BufferHealth row)), (''SessionId'', JStr (SessionId row)),
           (''Source'', JStr (Source row)), (''level'', JInt (level row))]"

subsection \<open>write_jsonl and write_json_array\<close>

definition write_jsonl :: "(json \<Rightarrow> string) \<Rightarrow> node list \<Rightarrow> string" where
  "write_jsonl dumps rows = concat (map (\<lambda>row. dumps (as_dict row) @ [CHR 10]) rows)"

text \<open>The rows of the array, each after the first preceded by a comma and a line break.\<close>

fun write_rows :: "(json \<Rightarrow> string) \<Rightarrow> bool \<Rightarrow> node list \<Rightarrow> string" where
  "write_rows dumps first [] = []"
| "write_rows dumps first (row # rows) =
     (if \<not> first then [CHR '','', CHR 10] else []) @ dumps (as_dict row) @
     write_rows dumps False rows"

definition write_json_array :: "(json \<Rightarrow> string) \<Rightarrow> node list \<Rightarrow> string" where
  "write_json_array dumps rows =
     [CHR ''['', CHR 10] @ write_rows dumps True rows @ [CHR 10, CHR '']'', CHR 10]"

subsection \<open>Reading a file line by line\<close>

text \<open>
  A file opened for reading in text mode translates the line endings: a carriage return
  followed by a line feed, and a carriage return alone, are read as one line feed.
\<close>

fun universal_newlines :: "string \<Rightarrow> string" where
  "universal_newlines [] = []"
| "universal_newlines [c] = [if c = CHR 13 then CHR 10 else c]"
| "universal_newlines (c # d # cs) =
     (if c = CHR 13 then
        (if d = CHR 10 then CHR 10 # universal_newlines cs
         else CHR 10 # universal_newlines (d # cs))
      else c # universal_newlines (d # cs))"

text \<open>
  \<^verbatim>\<open>for line in fin\<close> over the text read: every line ends with its line feed, the last
  one may lack it.
\<close>

fun splitlines :: "string \<Rightarrow> string list" where
  "splitlines [] = []"
| "splitlines (c # cs) =
     (if c = CHR 10 then [c] # splitlines cs
      else case splitlines cs of [] \<Rightarrow> [[c]] | l # ls \<Rightarrow> (c # l) # ls)"

text \<open>\<^verbatim>\<open>str.isspace\<close> on a code point below 256, and \<^verbatim>\<open>str.strip()\<close>.\<close>

definition isspace :: "char \<Rightarrow> bool" where
  "isspace c \<longleftrightarrow> (of_char c :: nat) \<in> {9, 10, 11, 12, 13, 28, 29, 30, 31, 32, 133, 160}"

definition strip :: "string \<Rightarrow> string" where
  "strip s = rev (dropWhile isspace (rev (dropWhile isspace s)))"

subsection \<open>csv.DictWriter\<close>

type_synonym csv = "json list list"

text \<open>\<^verbatim>\<open>obj.keys()\<close>: only a dictionary has the method.\<close>

definition keys :: "json \<Rightarrow> error + string list" where
  "keys obj = (case obj of JObj kvs \<Rightarrow> Inr (map fst kvs) | _ \<Rightarrow> Inl AttributeError)"

text \<open>
  \<^verbatim>\<open>writer.writeheader()\<close> writes the field names. \<^verbatim>\<open>writer.writerow(rowdict)\<close>, with the
  default \<^verbatim>\<open>extrasaction='raise'\<close> and \<^verbatim>\<open>restval=''\<close>, raises ValueError when the dictionary
  has a key that is not a field name and otherwise writes the value of every field
  name, the empty text for a missing one.
\<close>

definition writeheader :: "string list \<Rightarrow> json list" where
  "writeheader fieldnames = map JStr fieldnames"

definition writerow :: "string list \<Rightarrow> json \<Rightarrow> error + json list" where
  "writerow fieldnames rowdict =
     (case rowdict of
        JObj kvs \<Rightarrow>
          if \<exists>k \<in> set (map fst kvs). k \<notin> set fieldnames then Inl ValueError
          else Inr (map (\<lambda>k. case map_of kvs k of Some v \<Rightarrow> v | None \<Rightarrow> JStr []) fieldnames)
      | _ \<Rightarrow> Inl AttributeError)"

subsection \<open>stream_jsonl_to_csv\<close>

text \<open>
  The loop of lines 168 to 180 over the lines still to read, with the field names of
  the writer (\<open>None\<close> before the first object) and the rows written so far.
\<close>

fun jsonl_rows ::
  "(string \<Rightarrow> json option) \<Rightarrow> string list \<Rightarrow> string list option \<Rightarrow> csv \<Rightarrow> error + csv" where
  "jsonl_rows loads [] writer out = Inr out"
| "jsonl_rows loads (l # ls) writer out =
     (let line = strip l
      in if line = [] then jsonl_rows loads ls writer out
         else
           case loads line of
             None \<Rightarrow> Inl JSONDecodeError
           | Some obj \<Rightarrow>
               (case (case writer of
                        None \<Rightarrow>
                          (case keys obj of
                             Inl e \<Rightarrow> Inl e
                           | Inr fieldnames \<Rightarrow> Inr (fieldnames, out @ [writeheader fieldnames]))
                      | Some fieldnames \<Rightarrow> Inr (fieldnames, out)) of
                  Inl e \<Rightarrow> Inl e
                | Inr (fieldnames, out') \<Rightarrow>
                    (case writerow fieldnames obj of
                       Inl e \<Rightarrow> Inl e
                     | Inr row \<Rightarrow> jsonl_rows loads ls (Some fieldnames) (out' @ [row]))))"

definition stream_jsonl_to_csv :: "(string \<Rightarrow> json option) \<Rightarrow> string \<Rightarrow> error + csv" where
  "stream_jsonl_to_csv loads infile =
     jsonl_rows loads (splitlines (universal_newlines infile)) None []"

subsection \<open>json_array_to_csv\<close>

text \<open>The two functions of the module \<^verbatim>\<open>json\<close>, for the callers that use both.\<close>

record json_codec =
  dumps :: "json \<Rightarrow> string"
  loads :: "string \<Rightarrow> json option"

definition headers_clue :: "string list" where
  "headers_clue = [''timestamp'', ''NodeId'', ''BufferHealth'', ''SessionId'', ''Source'']"

text \<open>\<^verbatim>\<open>if not data\<close>: the values Python takes for false.\<close>

definition falsy :: "json \<Rightarrow> bool" where
  "falsy v \<longleftrightarrow>
     (case v of
        JNull \<Rightarrow> True | JBool b \<Rightarrow> \<not> b | JInt i \<Rightarrow> i = 0 | JFloat x \<Rightarrow> x = Finite 0
      | JStr s \<Rightarrow> s = [] | JArr xs \<Rightarrow> xs = [] | JObj kvs \<Rightarrow> kvs = [])"

text \<open>
  \<^verbatim>\<open>for row in data\<close>: the elements of a list, the keys of a dictionary, the characters of
  a text; TypeError for a value that cannot be iterated.
\<close>

definition elements :: "json \<Rightarrow> error + json list" where
  "elements data =
     (case data of
        JArr xs \<Rightarrow> Inr xs
      | JObj kvs \<Rightarrow> Inr (map (JStr \<circ> fst) kvs)
      | JStr s \<Rightarrow> Inr (map (\<lambda>c. JStr [c]) s)
      | _ \<Rightarrow> Inl TypeError)"

text \<open>A comprehension over a list: the results in order, or the first exception.\<close>

fun collect :: "('a \<Rightarrow> error + 'b) \<Rightarrow> 'a list \<Rightarrow> error + 'b list" where
  "collect f [] = Inr []"
| "collect f (x # xs) =
     (case f x of
        Inl e \<Rightarrow> Inl e
      | Inr y \<Rightarrow> (case collect f xs of Inl e \<Rightarrow> Inl e | Inr ys \<Rightarrow> Inr (y # ys)))"

text \<open>\<^verbatim>\<open>{key: x[key] for key in fieldnames}\<close>: KeyError for a key the row lacks.\<close>

definition restrict_row :: "string list \<Rightarrow> json \<Rightarrow> error + json" where
  "restrict_row fieldnames x =
     (case x of
        JObj kvs \<Rightarrow>
          (case collect (\<lambda>key. case map_of kvs key of None \<Rightarrow> Inl KeyError
                                 | Some v \<Rightarrow> Inr (key, v)) fieldnames of
             Inl e \<Rightarrow> Inl e
           | Inr kvs' \<Rightarrow> Inr (JObj kvs'))
      | _ \<Rightarrow> Inl TypeError)"

text \<open>
  The result is \<open>None\<close> when no file is written (line 152 to 154), else the rows of the
  file.
\<close>

definition json_array_to_csv :: "json_codec \<Rightarrow> string \<Rightarrow> error + csv option" where
  "json_array_to_csv codec infile =
     (case loads codec (universal_newlines infile) of
        None \<Rightarrow> Inl JSONDecodeError
      | Some data \<Rightarrow>
          if falsy data then Inr None
          else
            case elements data of
              Inl e \<Rightarrow> Inl e
            | Inr xs \<Rightarrow>
                (case collect keys xs of
                   Inl e \<Rightarrow> Inl e
                 | Inr kss \<Rightarrow>
                     (let fieldnames = sort (remdups (filter (\<lambda>k. k \<in> set headers_clue) (concat kss)))
                      in case collect (restrict_row fieldnames) xs of
                           Inl e \<Rightarrow> Inl e
                         | Inr filtered \<Rightarrow>
                             (case loads codec (dumps codec (JArr filtered)) of
                                None \<Rightarrow> Inl JSONDecodeError
                              | Some data_filtered \<Rightarrow>
                                  (case elements data_filtered of
                                     Inl e \<Rightarrow> Inl e
                                   | Inr ys \<Rightarrow>
                                       (case collect (writerow fieldnames) ys of
                                          Inl e \<Rightarrow> Inl e
                                        | Inr body \<Rightarrow> Inr (Some (writeheader fieldnames # body))))))))"

subsection \<open>main\<close>

datatype format = Jsonl | Json

text \<open>The arguments after \<^verbatim>\<open>parse_args\<close>, which has checked their types and the format.\<close>

record args =
  arg_rows :: int
  arg_format :: format
  arg_out :: string
  arg_root_share :: rat
  arg_max_children_hint :: int
  arg_buffer_min :: rat
  arg_buffer_max :: rat
  arg_start_ts :: string
  arg_end_ts :: string
  arg_max_level_tree :: int
  arg_seed :: "int option"
  arg_csv_out :: string

text \<open>What a run that returns 0 leaves: the text of the output file and the CSV file, if any.\<close>

record outcome =
  out_file :: string
  csv_file :: "csv option"

definition main :: "pylib \<Rightarrow> json_codec \<Rightarrow> args \<Rightarrow> error + outcome" where
  "main lib codec a =
     (if arg_rows a \<le> 0 then Inl (SystemExit ''--rows must be positive'')
      else if \<not> (0 \<le> arg_root_share a \<and> arg_root_share a \<le> 1)
        then Inl (SystemExit ''--root-share must be between 0 and 1'')
      else if arg_buffer_min a > arg_buffer_max a
        then Inl (SystemExit ''--buffer-min cannot exceed --buffer-max'')
      else
        case generate_nodes lib (arg_rows a) (arg_root_share a) (arg_max_children_hint a)
               (arg_buffer_min a) (arg_buffer_max a) (arg_start_ts a) (arg_end_ts a)
               (arg_max_level_tree a) (arg_seed a) of
          Inl e \<Rightarrow> Inl e
        | Inr rows \<Rightarrow>
            (let written = (if arg_format a = Jsonl then write_jsonl (dumps codec) rows
                            else write_json_array (dumps codec) rows)
             in if arg_csv_out a \<noteq> [] then
                  (let first_char = take 1 (universal_newlines written)
                   in if first_char = ''['' then
                        (case json_array_to_csv codec written of
                           Inl e \<Rightarrow> Inl e
                         | Inr c \<Rightarrow> Inr \<lparr>out_file = written, csv_file = c\<rparr>)
                      else
                        (case stream_jsonl_to_csv (loads codec) written of
                           Inl e \<Rightarrow> Inl e
                         | Inr c \<Rightarrow> Inr \<lparr>out_file = written, csv_file = Some c\<rparr>))
                else Inr \<lparr>out_file = written, csv_file = None\<rparr>))"

section \<open>Predicates of the proofs and a sample run\<close>

subsection \<open>The invariant of the loop\<close>

text \<open>
  Node \<open>i\<close> of a list is linked when it is a root (source the sentinel, level 1) or
  its source is the identifier of an earlier node, one level above it and below the
  ceiling \<open>M\<close>.
\<close>

definition linked :: "int \<Rightarrow> node list \<Rightarrow> nat \<Rightarrow> bool" where
  "linked M ns i \<longleftrightarrow>
     (Source (ns ! i) = ''CDN'' \<and> level (ns ! i) = 1) \<or>
     (\<exists>j<i. Source (ns ! i) = NodeId (ns ! j) \<and> level (ns ! i) = level (ns ! j) + 1 \<and>
            level (ns ! j) < M)"

text \<open>Node \<open>i\<close> carries the values sampled in pass \<open>i\<close>.\<close>

definition sampled ::
  "(int \<Rightarrow> string) \<Rightarrow> rat \<Rightarrow> rat \<Rightarrow> int \<Rightarrow> int \<Rightarrow> (nat \<Rightarrow> rnd) \<Rightarrow> (nat \<Rightarrow> ids) \<Rightarrow> node list \<Rightarrow> nat \<Rightarrow> bool" where
  "sampled f bmin bmax s e rng ent ns i \<longleftrightarrow>
     timestamp (ns ! i) = random_timestamp f s e (ts_draw (rng i)) \<and>
     NodeId (ns ! i) = gen_uuid (node_draw (ent i)) \<and>
     BufferHealth (ns ! i) = round2 (uniform bmin bmax (health_draw (rng i))) \<and>
     SessionId (ns ! i) = gen_uuid (session_draw (ent i))"

text \<open>
  What holds of the two lists after \<open>k\<close> passes: \<open>k\<close> nodes, each linked, sampled and
  at level 1 or more; the second list holds nodes of the first that are below the
  ceiling; and it is not empty after the first pass when the ceiling is 2 or more.
\<close>

definition gen_inv ::
  "(int \<Rightarrow> string) \<Rightarrow> rat \<Rightarrow> rat \<Rightarrow> int \<Rightarrow> int \<Rightarrow> int \<Rightarrow> (nat \<Rightarrow> rnd) \<Rightarrow> (nat \<Rightarrow> ids) \<Rightarrow> nat \<Rightarrow> gen_state \<Rightarrow> bool" where
  "gen_inv f bmin bmax s e M rng ent k st \<longleftrightarrow>
     length (nodes st) = k \<and>
     (\<forall>i<k. linked M (nodes st) i \<and> sampled f bmin bmax s e rng ent (nodes st) i \<and>
            1 \<le> level (nodes st ! i)) \<and>
     (\<forall>u \<in> set (notes_under_max_level st). \<exists>j<k. u = nodes st ! j \<and> level u < M) \<and>
     (2 \<le> M \<and> 0 < k \<longrightarrow> notes_under_max_level st \<noteq> [])"

subsection \<open>A sample run\<close>

text \<open>
  A run of three nodes with \<^verbatim>\<open>root_share\<close> 0.1 and \<^verbatim>\<open>max_level_tree\<close> 2 over the default
  time window. Every \<^verbatim>\<open>random.random()\<close> of a root decision returns 0.5 (the draw
  \<open>2\<^sup>5\<^sup>2\<close>), so nodes 1 and 2 are not roots; \<^verbatim>\<open>random.uniform\<close> draws 0.5 and the
  timestamp draws 0.25 (the draw \<open>2\<^sup>5\<^sup>1\<close>); \<^verbatim>\<open>random.randint\<close> picks node 0 for node 1 and
  node 1 for node 2, which is at the ceiling, so node 2 takes the fallback. The two
  timestamp functions are the library's, tabulated on the arguments of this run.
\<close>

definition demo_rnd :: "nat \<Rightarrow> rnd" where
  "demo_rnd i = \<lparr>health_draw = 4503599627370496, ts_draw = 2251799813685248, root_draw = 4503599627370496, parent_draw = 1, choice_draw = 0\<rparr>"

definition demo_ids :: "nat \<Rightarrow> ids" where
  "demo_ids i = \<lparr>node_draw = of_nat i, session_draw = 255\<rparr>"

definition demo_strptime :: "string \<Rightarrow> int option" where
  "demo_strptime s =
     (if s = ''2025-01-01T00:00:00.000Z'' then Some 1735689600
      else if s = ''2025-12-31T23:59:59.000Z'' then Some 1767225599
      else None)"

definition demo_strftime :: "int \<Rightarrow> string" where
  "demo_strftime t = (if t = 1743573599 then ''2025-04-02T05:59:59'' else [])"

definition demo_lib :: pylib where
  "demo_lib = \<lparr>strptime = demo_strptime, strftime = demo_strftime,
                seeded = (\<lambda>s. demo_rnd), unseeded = demo_rnd, urandom = demo_ids\<rparr>"

definition demo_node :: "string \<Rightarrow> string \<Rightarrow> int \<Rightarrow> node" where
  "demo_node nid src lvl =
     \<lparr>timestamp = ''2025-04-02T05:59:59.000Z'', NodeId = nid, BufferHealth = Finite 100,
      SessionId = ''00000000-0000-4000-8000-0000000000ff'', Source = src, level = lvl\<rparr>"

definition demo_nodes :: "node list" where
  "demo_nodes =
     [demo_node ''00000000-0000-4000-8000-000000000000'' ''CDN'' 1,
      demo_node ''00000000-0000-4000-8000-000000000001'' ''00000000-0000-4000-8000-000000000000'' 2,
      demo_node ''00000000-0000-4000-8000-000000000002'' ''00000000-0000-4000-8000-000000000000'' 2]"

text \<open>
  The one node of the same run cut to one row, with \<^verbatim>\<open>buffer_min\<close> 0.001953125 and
  \<^verbatim>\<open>buffer_max\<close> 0.00390625 (\<open>2\<^sup>-\<^sup>9\<close> and \<open>2\<^sup>-\<^sup>8\<close>, which binary64 holds exactly).
\<close>

definition low_health_node :: node where
  "low_health_node =
     \<lparr>timestamp = ''2025-04-02T05:59:59.000Z'', NodeId = ''00000000-0000-4000-8000-000000000000'',
      BufferHealth = Finite 0, SessionId = ''00000000-0000-4000-8000-0000000000ff'', Source = ''CDN'',
      level = 1\<rparr>"

subsection \<open>Sample files and arguments\<close>

text \<open>
  The root of the sample run and the line \<^verbatim>\<open>json.dumps\<close> prints for it; two lines of a
  file whose second object has a field the first lacks, between them a blank line, the
  line endings of three kinds; and the module \<^verbatim>\<open>json\<close> tabulated
  on these texts.
\<close>

definition demo_root :: node where
  "demo_root = demo_node ''00000000-0000-4000-8000-000000000000'' ''CDN'' 1"

definition demo_root_line :: string where
  \<open>demo_root_line =
     ''{"timestamp": "2025-04-02T05:59:59.000Z", "NodeId": "00000000-0000-4000-8000-000000000000", "BufferHealth": 100.0, "SessionId": "00000000-0000-4000-8000-0000000000ff", "Source": "CDN", "level": 1}''\<close>

definition first_line :: string where
  \<open>first_line = ''{"a": 1}''\<close>

definition extra_line :: string where
  \<open>extra_line = ''{"a": 2, "b": 3}''\<close>

definition demo_codec :: json_codec where
  "demo_codec =
     \<lparr>dumps = (\<lambda>v. if v = as_dict demo_root then demo_root_line else []),
      loads = (\<lambda>s. if s = demo_root_line then Some (as_dict demo_root)
                    else if s = first_line then Some (JObj [(''a'', JInt 1)])
                    else if s = extra_line then Some (JObj [(''a'', JInt 2), (''b'', JInt 3)])
                    else None)\<rparr>"

definition extra_field_file :: string where
  "extra_field_file =
     first_line @ [CHR 13, CHR 10] @ ''   '' @ [CHR 13] @ extra_line @ [CHR 10]"

text \<open>The default arguments for one row, with a depth ceiling of 0 and no CSV export.\<close>

definition zero_depth_args :: args where
  "zero_depth_args =
     \<lparr>arg_rows = 1, arg_format = Jsonl, arg_out = ''nodes.jsonl'', arg_root_share = 1 / 10,
      arg_max_children_hint = 6, arg_buffer_min = 0, arg_buffer_max = 200,
      arg_start_ts = ''2025-01-01T00:00:00.000Z'', arg_end_ts = ''2025-12-31T23:59:59.000Z'',
      arg_max_level_tree = 0, arg_seed = None, arg_csv_out = []\<rparr>"

text \<open>Other bytes of \<^verbatim>\<open>os.urandom\<close> than those of the sample run.\<close>

definition other_ids :: "nat \<Rightarrow> ids" where
  "other_ids i = \<lparr>node_draw = 1, session_draw = 255\<rparr>"

subsection \<open>Predicates of the claims about the export and the arguments\<close>

text \<open>The header and the row that the export of JSON lines writes for a record.\<close>

definition level_header :: "string list" where
  "level_header = [''timestamp'', ''NodeId'', ''BufferHealth'', ''SessionId'', ''Source'', ''level'']"

definition level_row :: "node \<Rightarrow> json list" where
  "level_row row =
     [JStr (timestamp row), JStr (NodeId row), JFloat (BufferHealth row), JStr (SessionId row),
      JStr (Source row), JInt (level row)]"

text \<open>The messages of the \<^verbatim>\<open>SystemExit\<close> exceptions the program raises.\<close>

definition exit_messages :: "string set" where
  "exit_messages =
     {''--rows must be positive'', ''--root-share must be between 0 and 1'',
      ''--buffer-min cannot exceed --buffer-max'',
      ''Invalid timestamp format. Use ISO like 2025-07-14T09:51:36.000Z'',
      ''--end-ts must be after --start-ts''}"

text \<open>
  The configurations the program rejects: a row count that is not positive, a root
  share outside \<open>[0, 1]\<close>, health bounds in the wrong order, a timestamp the library
  cannot read, an end that is not after the start.
\<close>

definition config_error :: "pylib \<Rightarrow> args \<Rightarrow> bool" where
  "config_error lib a \<longleftrightarrow>
     arg_rows a \<le> 0 \<or> \<not> (0 \<le> arg_root_share a \<and> arg_root_share a \<le> 1) \<or>
     arg_buffer_max a < arg_buffer_min a \<or>
     (case (strptime lib (arg_start_ts a), strptime lib (arg_end_ts a)) of
        (Some s, Some e) \<Rightarrow> e \<le> s
      | _ \<Rightarrow> True)"

section \<open>Floats: rounding\<close>

subsection \<open>The exponent\<close>

lemma bit_length_bounds:
  "0 < n \<Longrightarrow> 2 ^ (bit_length n - 1) \<le> n \<and> n < 2 ^ bit_length n"
proof (induction n rule: bit_length.induct)
  case (1 n)
  show ?case
  proof (cases "n div 2 = 0")
    case True
    with "1.prems" have "n = 1" by (simp add: div_eq_0_iff)
    moreover have "bit_length (Suc 0) = Suc 0"
      by (simp add: bit_length.simps [of "Suc 0"] bit_length.simps [of 0])
    ultimately show ?thesis by simp
  next
    case False
    then have pos: "0 < n div 2" by simp
    from "1.prems" have n0: "n \<noteq> 0" by simp
    from "1.IH" [OF n0 pos]
    have ih: "2 ^ (bit_length (n div 2) - 1) \<le> n div 2" "n div 2 < 2 ^ bit_length (n div 2)"
      by simp_all
    have bl: "bit_length n = Suc (bit_length (n div 2))"
      using n0 by (simp add: bit_length.simps [of n])
    have bpos: "0 < bit_length (n div 2)"
      using pos by (simp add: bit_length.simps [of "n div 2"])
    have "2 ^ (bit_length n - 1) = 2 * 2 ^ (bit_length (n div 2) - 1)"
      using bl bpos by (cases "bit_length (n div 2)") simp_all
    also have "\<dots> \<le> 2 * (n div 2)" using ih(1) by simp
    also have "\<dots> \<le> n" by simp
    finally have lo: "2 ^ (bit_length n - 1) \<le> n" .
    have "n < 2 * (n div 2) + 2" by presburger
    also have "\<dots> \<le> 2 * 2 ^ bit_length (n div 2)" using ih(2) by simp
    also have "\<dots> = 2 ^ bit_length n" using bl by simp
    finally show ?thesis using lo by simp
  qed
qed

lemma bit_length_pos: "0 < n \<Longrightarrow> 0 < bit_length n"
  by (simp add: bit_length.simps [of n])

lemma ilog2_bounds:
  assumes "0 < x"
  shows "2 powi (ilog2 x) \<le> x \<and> x < 2 powi (ilog2 x + 1)"
proof -
  obtain n d where q: "quotient_of x = (n, d)" by (cases "quotient_of x")
  then have dpos: "0 < d" by (rule quotient_of_denom_pos)
  have x: "x = of_int n / of_int d" using q by (rule quotient_of_div)
  have npos: "0 < n" using assms dpos x by (simp add: zero_less_divide_iff)
  define a where "a = bit_length (nat n)"
  define b where "b = bit_length (nat d)"
  define k where "k = int a - int b"
  have apos: "0 < a" and bpos: "0 < b"
    using npos dpos by (simp_all add: a_def b_def bit_length_pos)
  from bit_length_bounds [of "nat n"] npos
  have n: "2 ^ (a - 1) \<le> nat n" "nat n < 2 ^ a" by (simp_all add: a_def)
  from bit_length_bounds [of "nat d"] dpos
  have d: "2 ^ (b - 1) \<le> nat d" "nat d < 2 ^ b" by (simp_all add: b_def)
  have nr: "(2::rat) ^ (a - 1) \<le> of_int n" "(of_int n :: rat) < 2 ^ a"
  proof -
    have "(of_nat (2 ^ (a - 1)) :: rat) \<le> of_nat (nat n)" using n(1) by (simp only: of_nat_le_iff)
    then show "(2::rat) ^ (a - 1) \<le> of_int n" using npos by simp
    have "(of_nat (nat n) :: rat) < of_nat (2 ^ a)" using n(2) by (simp only: of_nat_less_iff)
    then show "(of_int n :: rat) < 2 ^ a" using npos by simp
  qed
  have dr: "(2::rat) ^ (b - 1) \<le> of_int d" "(of_int d :: rat) < 2 ^ b"
  proof -
    have "(of_nat (2 ^ (b - 1)) :: rat) \<le> of_nat (nat d)" using d(1) by (simp only: of_nat_le_iff)
    then show "(2::rat) ^ (b - 1) \<le> of_int d" using dpos by simp
    have "(of_nat (nat d) :: rat) < of_nat (2 ^ b)" using d(2) by (simp only: of_nat_less_iff)
    then show "(of_int d :: rat) < 2 ^ b" using dpos by simp
  qed
  have dq: "(0::rat) < of_int d" using dpos by simp
  have il: "ilog2 x = (if 2 powi k \<le> x then k else k - 1)"
    using q by (simp add: ilog2_def k_def a_def b_def)
  have pk1: "(2::rat) powi (k + 1) = 2 ^ a / 2 ^ (b - 1)"
  proof -
    have "k + 1 = int a - int (b - 1)" using bpos by (simp add: k_def)
    then show ?thesis by (simp add: power_int_diff)
  qed
  have pk0: "(2::rat) powi (k - 1) = 2 ^ (a - 1) / 2 ^ b"
  proof -
    have "k - 1 = int (a - 1) - int b" using apos by (simp add: k_def)
    then show ?thesis by (simp add: power_int_diff)
  qed
  have up: "x < 2 powi (k + 1)"
  proof -
    have "of_int n / of_int d < (2::rat) ^ a / of_int d"
      using nr(2) dq by (simp add: divide_strict_right_mono)
    also have "\<dots> \<le> 2 ^ a / 2 ^ (b - 1)"
      using dr(1) dq by (intro divide_left_mono) simp_all
    finally show ?thesis using x pk1 by simp
  qed
  have lo: "2 powi (k - 1) \<le> x"
  proof -
    have "(2::rat) ^ (a - 1) / 2 ^ b \<le> 2 ^ (a - 1) / of_int d"
      using dr(2) dq by (intro divide_left_mono) simp_all
    also have "\<dots> \<le> of_int n / of_int d"
      using nr(1) dq by (simp add: divide_right_mono)
    finally show ?thesis using x pk0 by simp
  qed
  show ?thesis
  proof (cases "2 powi k \<le> x")
    case True
    then show ?thesis using il up by simp
  next
    case False
    then show ?thesis using il lo by simp
  qed
qed

lemma ilog2_unique:
  assumes "0 < x" and "2 powi e \<le> x" and "x < 2 powi (e + 1)"
  shows "ilog2 x = e"
proof -
  from ilog2_bounds [OF assms(1)]
  have b: "2 powi (ilog2 x) \<le> x" "x < 2 powi (ilog2 x + 1)" by simp_all
  have "\<not> ilog2 x < e"
  proof
    assume "ilog2 x < e"
    then have "ilog2 x + 1 \<le> e" by simp
    then have "(2::rat) powi (ilog2 x + 1) \<le> 2 powi e" by (intro power_int_increasing) simp_all
    with b(2) assms(2) show False by simp
  qed
  moreover have "\<not> e < ilog2 x"
  proof
    assume "e < ilog2 x"
    then have "e + 1 \<le> ilog2 x" by simp
    then have "(2::rat) powi (e + 1) \<le> 2 powi (ilog2 x)" by (intro power_int_increasing) simp_all
    with b(1) assms(3) show False by simp
  qed
  ultimately show ?thesis by simp
qed

subsection \<open>Rounding a binary64 value\<close>

text \<open>
  A value \<open>m * 2\<^sup>p\<close> with a significand \<open>m\<close> of at most 53 bits and an exponent \<open>p\<close> of
  \<open>-1074\<close> or more, below \<open>2\<^sup>1\<^sup>0\<^sup>2\<^sup>4\<close> in magnitude, is a binary64 value: rounding returns it.
\<close>

lemma py_round_of_int: "py_round (of_int a) = a"
  by (simp add: py_round_def)

lemma py_round_near:
  assumes "of_int m - 1 / 2 < x" and "x < of_int m + 1 / 2"
  shows "py_round x = m"
proof (cases "of_int m \<le> x")
  case True
  with assms(2) have "\<lfloor>x\<rfloor> = m" by (simp add: floor_eq_iff)
  then show ?thesis using assms(2) by (simp add: py_round_def)
next
  case False
  with assms(1) have "\<lfloor>x\<rfloor> = m - 1" by (simp add: floor_eq_iff)
  then show ?thesis using assms(1) by (simp add: py_round_def)
qed

lemma py_round_cases: "py_round x = \<lfloor>x\<rfloor> \<or> py_round x = \<lfloor>x\<rfloor> + 1"
  by (simp add: py_round_def Let_def)

lemma py_round_mono:
  assumes "x \<le> y"
  shows "py_round x \<le> py_round y"
proof (cases "\<lfloor>x\<rfloor> < \<lfloor>y\<rfloor>")
  case True
  have "py_round x \<le> \<lfloor>x\<rfloor> + 1" using py_round_cases [of x] by auto
  also have "\<dots> \<le> \<lfloor>y\<rfloor>" using True by simp
  also have "\<dots> \<le> py_round y" using py_round_cases [of y] by auto
  finally show ?thesis .
next
  case False
  moreover have "\<lfloor>x\<rfloor> \<le> \<lfloor>y\<rfloor>" using assms by (rule floor_mono)
  ultimately have eq: "\<lfloor>x\<rfloor> = \<lfloor>y\<rfloor>" by simp
  then have "x - of_int \<lfloor>y\<rfloor> \<le> y - of_int \<lfloor>y\<rfloor>" using assms by simp
  then show ?thesis
    using eq by (auto simp add: py_round_def Let_def)
qed

lemma fl_value_exact:
  assumes x: "x = of_int m * 2 powi p" and m: "\<bar>m\<bar> < 2 ^ 53" and p: "- 1074 \<le> p"
  shows "fl_value x = x"
proof (cases "x = 0")
  case True
  then show ?thesis by (simp add: fl_value_def)
next
  case False
  then have pos: "0 < \<bar>x\<bar>" by simp
  define e where "e = max (ilog2 \<bar>x\<bar>) (- 1022)"
  from ilog2_bounds [OF pos] have lo: "2 powi (ilog2 \<bar>x\<bar>) \<le> \<bar>x\<bar>" by simp
  have ax: "\<bar>x\<bar> = of_int \<bar>m\<bar> * 2 powi p"
    by (simp add: x abs_mult)
  have "(of_int \<bar>m\<bar> :: rat) < of_int (2 ^ 53)" using m by (simp only: of_int_less_iff)
  then have "(of_int \<bar>m\<bar> :: rat) * 2 powi p < 2 ^ 53 * 2 powi p"
    by (intro mult_strict_right_mono) simp_all
  also have "\<dots> = 2 powi (53 + p)" by (simp add: power_int_add)
  finally have up: "\<bar>x\<bar> < 2 powi (53 + p)" using ax by simp
  have "ilog2 \<bar>x\<bar> < 53 + p"
  proof (rule ccontr)
    assume "\<not> ilog2 \<bar>x\<bar> < 53 + p"
    then have "53 + p \<le> ilog2 \<bar>x\<bar>" by simp
    then have "(2::rat) powi (53 + p) \<le> 2 powi (ilog2 \<bar>x\<bar>)"
      by (intro power_int_increasing) simp_all
    with lo up show False by simp
  qed
  with p have ep: "e - 52 \<le> p" by (simp add: e_def)
  define j where "j = nat (p - (e - 52))"
  have pj: "p = (e - 52) + int j" using ep by (simp add: j_def)
  have "x / 2 powi (e - 52) = of_int m * (2 powi (e - 52) * 2 ^ j) / 2 powi (e - 52)"
    by (simp add: x pj power_int_add)
  also have "\<dots> = of_int (m * 2 ^ j)" by simp
  finally have quot: "x / 2 powi (e - 52) = of_int (m * 2 ^ j)" .
  have y: "of_int (py_round (x / 2 powi (e - 52))) * 2 powi (e - 52) = x"
    by (simp only: quot py_round_of_int) (simp add: x pj power_int_add)
  show ?thesis
    using False y by (simp add: fl_value_def Let_def e_def [symmetric])
qed

lemma fl_exact:
  assumes "x = of_int m * 2 powi p" and "\<bar>m\<bar> < 2 ^ 53" and "- 1074 \<le> p"
    and "\<bar>x\<bar> < 2 ^ 1024"
  shows "fl x = Finite x"
  using fl_value_exact [OF assms(1-3)] assms(4) by (simp add: fl_def)

lemma fl_int: "\<bar>m\<bar> < 2 ^ 53 \<Longrightarrow> fl (of_int m) = Finite (of_int m)"
proof -
  assume m: "\<bar>m\<bar> < 2 ^ 53"
  then have "(of_int \<bar>m\<bar> :: rat) < of_int (2 ^ 53)" by (simp only: of_int_less_iff)
  then have "\<bar>of_int m :: rat\<bar> < 2 ^ 1024" by simp
  with m show ?thesis by (intro fl_exact [of _ m 0]) simp_all
qed

lemma fl_value_int: "\<bar>m\<bar> < 2 ^ 53 \<Longrightarrow> fl_value (of_int m) = of_int m"
  by (rule fl_value_exact [of _ m 0]) simp_all

subsection \<open>Rounding any value\<close>

text \<open>
  With the exponent \<open>e\<close> of \<open>x\<close> at hand, rounding is the rounding of \<open>x / 2\<^sup>e\<^sup>-\<^sup>5\<^sup>2\<close> to an
  integer; a value of \<open>2\<^sup>1\<^sup>0\<^sup>2\<^sup>4\<close> or more rounds to the infinity.
\<close>

lemma fl_value_round:
  assumes "2 powi e \<le> \<bar>x\<bar>" and "\<bar>x\<bar> < 2 powi (e + 1)" and "- 1022 \<le> e"
    and "py_round (x / 2 powi (e - 52)) = m"
  shows "fl_value x = of_int m * 2 powi (e - 52)"
proof -
  have "(0::rat) < 2 powi e" by simp
  then have pos: "0 < \<bar>x\<bar>" using assms(1) by (rule less_le_trans)
  then have nz: "x \<noteq> 0" by auto
  from ilog2_unique [OF pos assms(1,2)] assms(3) have "max (ilog2 \<bar>x\<bar>) (- 1022) = e" by simp
  then show ?thesis using nz assms(4) by (simp add: fl_value_def Let_def)
qed

lemma fl_round:
  assumes "2 powi e \<le> \<bar>x\<bar>" and "\<bar>x\<bar> < 2 powi (e + 1)" and "- 1022 \<le> e"
    and "py_round (x / 2 powi (e - 52)) = m"
    and "\<bar>of_int m * 2 powi (e - 52) :: rat\<bar> < 2 ^ 1024"
  shows "fl x = Finite (of_int m * 2 powi (e - 52))"
  using fl_value_round [OF assms(1-4)] assms(5) by (simp add: fl_def)

lemma fl_overflow:
  assumes "2 ^ 1024 \<le> x"
  shows "fl x = PInf"
proof -
  have x0: "(0::rat) < x" using assms by (rule less_le_trans [rotated]) simp
  then have ax: "\<bar>x\<bar> = x" by simp
  define e where "e = ilog2 x"
  from ilog2_bounds [OF x0] have b: "2 powi e \<le> x" "x < 2 powi (e + 1)" by (simp_all add: e_def)
  have "\<not> e + 1 \<le> 1024"
  proof
    assume "e + 1 \<le> 1024"
    then have "(2::rat) powi (e + 1) \<le> 2 powi 1024" by (intro power_int_increasing) simp_all
    with b(2) assms show False by simp
  qed
  then have e: "1024 \<le> e" by simp
  then have m: "max e (- 1022) = e" by simp
  let ?q = "(2::rat) powi (e - 52)"
  have q: "0 < ?q" by simp
  have "2 powi e / ?q \<le> x / ?q" using b(1) q by (simp add: divide_right_mono)
  moreover have "2 powi e / ?q = of_int (2 ^ 52)"
    by (simp add: power_int_diff)
  ultimately have "py_round (of_int (2 ^ 52)) \<le> py_round (x / ?q)"
    using py_round_mono by simp
  then have "2 ^ 52 \<le> py_round (x / ?q)" by (simp only: py_round_of_int)
  then have "(of_int (2 ^ 52) :: rat) \<le> of_int (py_round (x / ?q))" by (simp only: of_int_le_iff)
  then have s1: "of_int (2 ^ 52) * ?q \<le> of_int (py_round (x / ?q)) * ?q"
    using q by (intro mult_right_mono) simp_all
  have s2: "2 powi e = of_int (2 ^ 52) * ?q" by (simp add: power_int_diff)
  have s3: "(2::rat) powi 1024 \<le> 2 powi e" using e by (intro power_int_increasing) simp_all
  have "(2::rat) ^ 1024 = 2 powi 1024" by simp
  also note s3
  also note s2
  also note s1
  finally have big: "(2::rat) ^ 1024 \<le> of_int (py_round (x / ?q)) * ?q" .
  have "(0::rat) < 2 ^ 1024" by simp
  then have "(0::rat) \<le> of_int (py_round (x / ?q)) * ?q" using big by linarith
  then have "(2::rat) ^ 1024 \<le> \<bar>of_int (py_round (x / ?q)) * ?q\<bar>" using big by linarith
  then show ?thesis
    using x0 by (simp add: fl_def fl_value_def Let_def ax e_def [symmetric] m)
qed

section \<open>The generator: invariant and claims\<close>

subsection \<open>The loop, pass by pass\<close>

lemma for_each_append:
  "for_each body (xs @ ys) st =
     (case for_each body xs st of Inl e \<Rightarrow> Inl e | Inr st' \<Rightarrow> for_each body ys st')"
  by (induction xs arbitrary: st) (auto split: sum.splits)

lemma gen_loop_0:
  "gen_loop f rs bmin bmax s e M rng ent 0 = Inr \<lparr>nodes = [], notes_under_max_level = []\<rparr>"
  by (simp add: gen_loop_def)

lemma gen_loop_Suc:
  "gen_loop f rs bmin bmax s e M rng ent (Suc k) =
     (case gen_loop f rs bmin bmax s e M rng ent k of
        Inl err \<Rightarrow> Inl err
      | Inr st \<Rightarrow> gen_body f rs bmin bmax s e M k (rng k) (ent k) st)"
  by (simp add: gen_loop_def for_each_append split: sum.splits)

subsection \<open>The choice of the source\<close>

text \<open>
  With as many nodes as passes done, \<^verbatim>\<open>random.randint(0, i - 1)\<close> is an index of the
  list, so the only exception of a pass is the IndexError of \<^verbatim>\<open>random.choice\<close> on an
  empty list.
\<close>

lemma choose_source_result:
  assumes len: "length (nodes st) = i"
    and under: "\<forall>u \<in> set (notes_under_max_level st). \<exists>j<i. u = nodes st ! j \<and> level u < M"
    and res: "choose_source rs M i r st = Inr (src, lvl)"
  shows "(src = ''CDN'' \<and> lvl = 1) \<or>
         (\<exists>j<i. src = NodeId (nodes st ! j) \<and> lvl = level (nodes st ! j) + 1 \<and>
                level (nodes st ! j) < M)"
proof (cases "i = 0 \<or> random_unit (root_draw r) < rs")
  case True
  with res show ?thesis by (simp add: choose_source_def)
next
  case False
  then have ipos: "0 < i" by simp
  define p where "p = parent_draw r mod i"
  have plt: "p < i" using ipos by (simp add: p_def)
  have ri: "randint 0 (int i - 1) (parent_draw r) = Inr (int p)"
    using ipos by (simp add: randint_def p_def)
  have gi: "getitem (nodes st) (int p) = Inr (nodes st ! p)"
    using plt len by (simp add: getitem_def)
  show ?thesis
  proof (cases "level (nodes st ! p) \<le> M - 1")
    case True
    with res False ri gi have "src = NodeId (nodes st ! p)" "lvl = level (nodes st ! p) + 1"
      by (simp_all add: choose_source_def)
    with True plt show ?thesis by auto
  next
    case deep: False
    show ?thesis
    proof (cases "notes_under_max_level st = []")
      case True
      with res False ri gi deep show ?thesis by (simp add: choose_source_def choice_def)
    next
      case ne: False
      define q where "q = notes_under_max_level st ! (choice_draw r mod length (notes_under_max_level st))"
      have qin: "q \<in> set (notes_under_max_level st)"
        using ne by (simp add: q_def)
      have "src = NodeId q" "lvl = level q + 1"
        using res False ri gi deep ne by (simp_all add: choose_source_def choice_def q_def)
      moreover from under qin obtain j where "j < i" "q = nodes st ! j" "level q < M" by blast
      ultimately show ?thesis by auto
    qed
  qed
qed

lemma choose_source_error:
  assumes len: "length (nodes st) = i"
    and res: "choose_source rs M i r st = Inl err"
  shows "err = IndexError \<and> 0 < i \<and> notes_under_max_level st = []"
proof -
  from res have nroot: "\<not> (i = 0 \<or> random_unit (root_draw r) < rs)"
    by (auto simp add: choose_source_def split: if_splits)
  then have ipos: "0 < i" by simp
  define p where "p = parent_draw r mod i"
  have plt: "p < i" using ipos by (simp add: p_def)
  have ri: "randint 0 (int i - 1) (parent_draw r) = Inr (int p)"
    using ipos by (simp add: randint_def p_def)
  have gi: "getitem (nodes st) (int p) = Inr (nodes st ! p)"
    using plt len by (simp add: getitem_def)
  from res nroot ri gi show ?thesis
    using ipos by (auto simp add: choose_source_def choice_def split: if_splits)
qed

subsection \<open>The invariant is kept\<close>

lemma linked_append:
  assumes "i < length ns"
  shows "linked M (ns @ [x]) i = linked M ns i"
proof -
  have "\<And>j. j \<le> i \<Longrightarrow> (ns @ [x]) ! j = ns ! j"
    using assms by (simp add: nth_append)
  then show ?thesis
    unfolding linked_def by (simp cong: conj_cong)
qed

lemma sampled_append:
  "i < length ns \<Longrightarrow> sampled f bmin bmax s e rng ent (ns @ [x]) i = sampled f bmin bmax s e rng ent ns i"
  by (simp add: sampled_def nth_append)

lemma gen_body_result:
  assumes "gen_body f rs bmin bmax s e M i r u st = Inr st'"
  obtains src lvl where
    "choose_source rs M i r st = Inr (src, lvl)"
    "nodes st' = nodes st @
       [\<lparr>timestamp = random_timestamp f s e (ts_draw r), NodeId = gen_uuid (node_draw u),
         BufferHealth = round2 (uniform bmin bmax (health_draw r)),
         SessionId = gen_uuid (session_draw u), Source = src, level = lvl\<rparr>]"
    "notes_under_max_level st' =
       (if lvl < M then notes_under_max_level st @ [last (nodes st')]
        else notes_under_max_level st)"
  using assms by (auto simp add: gen_body_def Let_def split: sum.splits prod.splits)

lemma gen_body_inv:
  assumes inv: "gen_inv f bmin bmax s e M rng ent k st"
    and step: "gen_body f rs bmin bmax s e M k (rng k) (ent k) st = Inr st'"
  shows "gen_inv f bmin bmax s e M rng ent (Suc k) st'"
proof -
  from step obtain src lvl where
    cs: "choose_source rs M k (rng k) st = Inr (src, lvl)" and
    ns: "nodes st' = nodes st @
       [\<lparr>timestamp = random_timestamp f s e (ts_draw (rng k)), NodeId = gen_uuid (node_draw (ent k)),
         BufferHealth = round2 (uniform bmin bmax (health_draw (rng k))),
         SessionId = gen_uuid (session_draw (ent k)), Source = src, level = lvl\<rparr>]" and
    un: "notes_under_max_level st' =
       (if lvl < M then notes_under_max_level st @ [last (nodes st')]
        else notes_under_max_level st)"
    by (rule gen_body_result)
  from inv have len: "length (nodes st) = k"
    and old: "\<And>i. i < k \<Longrightarrow> linked M (nodes st) i \<and> sampled f bmin bmax s e rng ent (nodes st) i \<and>
            1 \<le> level (nodes st ! i)"
    and under: "\<forall>u \<in> set (notes_under_max_level st). \<exists>j<k. u = nodes st ! j \<and> level u < M"
    and nonempty: "2 \<le> M \<and> 0 < k \<longrightarrow> notes_under_max_level st \<noteq> []"
    by (simp_all add: gen_inv_def)
  let ?x = "last (nodes st')"
  have xk: "nodes st' ! k = ?x" using ns len by (simp add: nth_append)
  have xsrc: "Source ?x = src" and xlvl: "level ?x = lvl" using ns by simp_all
  have keep: "\<And>i. i < k \<Longrightarrow> nodes st' ! i = nodes st ! i"
    using ns len by (simp add: nth_append)
  from choose_source_result [OF len under cs]
  have res: "(src = ''CDN'' \<and> lvl = 1) \<or>
         (\<exists>j<k. src = NodeId (nodes st ! j) \<and> lvl = level (nodes st ! j) + 1 \<and>
                level (nodes st ! j) < M)" .
  have len': "length (nodes st') = Suc k" using ns len by simp
  have new_linked: "linked M (nodes st') k"
    using res keep xk xsrc xlvl unfolding linked_def by auto
  have new_sampled: "sampled f bmin bmax s e rng ent (nodes st') k"
    using ns len by (simp add: sampled_def nth_append)
  have new_level: "1 \<le> level (nodes st' ! k)"
    using res old xk xlvl by force
  have all: "\<forall>i<Suc k. linked M (nodes st') i \<and> sampled f bmin bmax s e rng ent (nodes st') i \<and>
            1 \<le> level (nodes st' ! i)"
  proof (intro allI impI)
    fix i assume "i < Suc k"
    then consider "i < k" | "i = k" by linarith
    then show "linked M (nodes st') i \<and> sampled f bmin bmax s e rng ent (nodes st') i \<and>
            1 \<le> level (nodes st' ! i)"
    proof cases
      case 1
      then show ?thesis
        using old [OF 1] keep [OF 1] len ns by (simp add: linked_append sampled_append)
    next
      case 2
      then show ?thesis using new_linked new_sampled new_level by simp
    qed
  qed
  have under': "\<forall>u \<in> set (notes_under_max_level st'). \<exists>j<Suc k. u = nodes st' ! j \<and> level u < M"
  proof
    fix u assume uin: "u \<in> set (notes_under_max_level st')"
    show "\<exists>j<Suc k. u = nodes st' ! j \<and> level u < M"
    proof (cases "u \<in> set (notes_under_max_level st)")
      case True
      with under obtain j where "j < k" "u = nodes st ! j" "level u < M" by blast
      then show ?thesis using keep [of j] by (intro exI [of _ j]) simp
    next
      case False
      with uin un have "lvl < M" "u = ?x" by (auto split: if_splits)
      then show ?thesis using xk xlvl by (intro exI [of _ k]) simp
    qed
  qed
  have nonempty': "2 \<le> M \<and> 0 < Suc k \<longrightarrow> notes_under_max_level st' \<noteq> []"
  proof (cases "k = 0")
    case True
    with cs have "lvl = 1" by (simp add: choose_source_def)
    then show ?thesis using un by simp
  next
    case False
    then show ?thesis using nonempty un by simp
  qed
  show ?thesis
    unfolding gen_inv_def using len' all under' nonempty' by blast
qed

lemma gen_inv_0:
  "gen_inv f bmin bmax s e M rng ent 0 \<lparr>nodes = [], notes_under_max_level = []\<rparr>"
  by (simp add: gen_inv_def)

lemma gen_loop_inv:
  "gen_loop f rs bmin bmax s e M rng ent k = Inr st \<Longrightarrow> gen_inv f bmin bmax s e M rng ent k st"
proof (induction k arbitrary: st)
  case 0
  then show ?case using gen_inv_0 by (simp add: gen_loop_0)
next
  case (Suc k)
  from Suc.prems obtain st0 where
    prev: "gen_loop f rs bmin bmax s e M rng ent k = Inr st0" and
    step: "gen_body f rs bmin bmax s e M k (rng k) (ent k) st0 = Inr st"
    by (auto simp add: gen_loop_Suc split: sum.splits)
  from gen_body_inv [OF Suc.IH [OF prev] step] show ?case .
qed

subsection \<open>With a ceiling of 2 or more no pass fails\<close>

lemma gen_body_error:
  assumes len: "length (nodes st) = i"
    and res: "gen_body f rs bmin bmax s e M i r u st = Inl err"
  shows "err = IndexError \<and> 0 < i \<and> notes_under_max_level st = []"
proof -
  from res have "choose_source rs M i r st = Inl err"
    by (auto simp add: gen_body_def Let_def split: sum.splits prod.splits)
  from choose_source_error [OF len this] show ?thesis .
qed

lemma gen_loop_total:
  assumes "2 \<le> M"
  shows "\<exists>st. gen_loop f rs bmin bmax s e M rng ent k = Inr st"
proof (induction k)
  case 0
  show ?case by (simp add: gen_loop_0)
next
  case (Suc k)
  then obtain st0 where prev: "gen_loop f rs bmin bmax s e M rng ent k = Inr st0" by blast
  from gen_loop_inv [OF prev] have inv: "gen_inv f bmin bmax s e M rng ent k st0" .
  show ?case
  proof (cases "gen_body f rs bmin bmax s e M k (rng k) (ent k) st0")
    case (Inl err)
    from inv have "length (nodes st0) = k" by (simp add: gen_inv_def)
    from gen_body_error [OF this Inl] have "0 < k" "notes_under_max_level st0 = []" by simp_all
    with inv assms show ?thesis by (simp add: gen_inv_def)
  next
    case (Inr st)
    with prev show ?thesis by (simp add: gen_loop_Suc)
  qed
qed

subsection \<open>An identifier is never the sentinel\<close>

lemma length_hex32: "length (hex32 w) = 32"
  by (simp add: hex32_def)

lemma length_gen_uuid: "length (gen_uuid b) = 36"
  by (simp add: gen_uuid_def uuid_str_def Let_def length_hex32)

lemma gen_uuid_not_CDN: "gen_uuid b \<noteq> ''CDN''"
proof
  assume "gen_uuid b = ''CDN''"
  then have "length (gen_uuid b) = length ''CDN''" by simp
  then show False by (simp add: length_gen_uuid)
qed

subsection \<open>The sample run, evaluated\<close>

lemma gen_uuid_0: "gen_uuid 0 = ''00000000-0000-4000-8000-000000000000''"
  by (simp add: gen_uuid_def uuid_str_def uuid4_def hex32_def upt_rec hexdigit_def drop_bit_eq_div)

lemma gen_uuid_1: "gen_uuid 1 = ''00000000-0000-4000-8000-000000000001''"
  by (simp add: gen_uuid_def uuid_str_def uuid4_def hex32_def upt_rec hexdigit_def drop_bit_eq_div)

lemma gen_uuid_2: "gen_uuid 2 = ''00000000-0000-4000-8000-000000000002''"
  by (simp add: gen_uuid_def uuid_str_def uuid4_def hex32_def upt_rec hexdigit_def drop_bit_eq_div)

lemma gen_uuid_255: "gen_uuid 255 = ''00000000-0000-4000-8000-0000000000ff''"
  by (simp add: gen_uuid_def uuid_str_def uuid4_def hex32_def upt_rec hexdigit_def drop_bit_eq_div)

lemma fl_100: "fl 100 = Finite 100"
  using fl_int [of 100] by simp

lemma fl_200: "fl 200 = Finite 200"
  using fl_int [of 200] by simp

lemma demo_health: "round2 (uniform 0 200 4503599627370496) = Finite 100"
  by (simp add: uniform_def fsub_def random_unit_def fl_100 fl_200 py_round_def)

lemma demo_instant:
  "random_instant 1735689600000000 1767225599000000 2251799813685248 = 1743573599000000"
proof -
  have a: "fl 31535999 = Finite 31535999" using fl_int [of 31535999] by simp
  have b: "fl (31535999 / 4) = Finite (31535999 / 4)"
    by (rule fl_exact [of _ 31535999 "- 2"]) (simp_all add: power_int_def power_divide)
  have c: "fl_value 750000 = 750000" using fl_value_int [of 750000] by simp
  have d: "\<lfloor>31535999 / 4 :: rat\<rfloor> = 7883999" by (simp add: floor_eq_iff)
  show ?thesis
    by (simp add: random_instant_def total_seconds_def random_unit_def a b c d trunc_def
        py_round_def)
qed

lemma demo_timestamp:
  "random_timestamp demo_strftime 1735689600000000 1767225599000000 2251799813685248 =
     ''2025-04-02T05:59:59.000Z''"
  by (simp add: random_timestamp_def demo_instant demo_strftime_def)

lemma demo_not_root: "\<not> random_unit 4503599627370496 * 10 < 1"
  by (simp add: random_unit_def)

lemma demo_loop:
  "gen_loop demo_strftime (1 / 10) 0 200 1735689600000000 1767225599000000 2 demo_rnd demo_ids
     (Suc (Suc (Suc 0))) =
   Inr \<lparr>nodes = demo_nodes, notes_under_max_level = [demo_nodes ! 0]\<rparr>"
  by (simp add: gen_loop_Suc gen_loop_0 gen_body_def choose_source_def randint_def getitem_def
      choice_def Let_def demo_rnd_def demo_ids_def demo_health demo_timestamp demo_not_root
      gen_uuid_0 gen_uuid_1 gen_uuid_2 gen_uuid_255 demo_nodes_def demo_node_def)

lemma demo_run:
  "generate_nodes demo_lib 3 (1 / 10) 6 0 200 ''2025-01-01T00:00:00.000Z''
     ''2025-12-31T23:59:59.000Z'' 2 None = Inr demo_nodes"
proof -
  show ?thesis
    by (simp add: generate_nodes_def demo_lib_def demo_strptime_def numeral_3_eq_3 demo_loop)
qed

subsection \<open>What a run that returns has done\<close>

lemma generate_nodes_Inr:
  assumes "generate_nodes lib n rs hint bmin bmax start_ts end_ts M seed = Inr ns"
  obtains s e st where
    "strptime lib start_ts = Some s" "strptime lib end_ts = Some e" "s < e"
    "gen_loop (strftime lib) rs bmin bmax (s * 1000000) (e * 1000000) M
       (case seed of None \<Rightarrow> unseeded lib | Some x \<Rightarrow> seeded lib x) (urandom lib) (nat n) = Inr st"
    "ns = nodes st"
  using assms
  by (auto simp add: generate_nodes_def Let_def split: option.splits if_splits sum.splits)

lemma generate_nodes_inv:
  assumes "generate_nodes lib n rs hint bmin bmax start_ts end_ts M seed = Inr ns"
  obtains s e st where
    "strptime lib start_ts = Some s" "strptime lib end_ts = Some e" "s < e"
    "gen_inv (strftime lib) bmin bmax (s * 1000000) (e * 1000000) M
       (case seed of None \<Rightarrow> unseeded lib | Some x \<Rightarrow> seeded lib x) (urandom lib) (nat n) st"
    "ns = nodes st"
proof -
  from assms obtain s e st where
    a: "strptime lib start_ts = Some s" "strptime lib end_ts = Some e" "s < e" and
    b: "gen_loop (strftime lib) rs bmin bmax (s * 1000000) (e * 1000000) M
       (case seed of None \<Rightarrow> unseeded lib | Some x \<Rightarrow> seeded lib x) (urandom lib) (nat n) = Inr st" and
    c: "ns = nodes st"
    by (rule generate_nodes_Inr)
  from gen_loop_inv [OF b] a c that show thesis by blast
qed

lemma generate_nodes_linked:
  assumes "generate_nodes lib n rs hint bmin bmax start_ts end_ts M seed = Inr ns"
    and "i < length ns"
  shows "linked M ns i \<and> 1 \<le> level (ns ! i) \<and> (\<exists>b. NodeId (ns ! i) = gen_uuid b)"
proof -
  from assms(1) obtain s e st where
    inv: "gen_inv (strftime lib) bmin bmax (s * 1000000) (e * 1000000) M
       (case seed of None \<Rightarrow> unseeded lib | Some x \<Rightarrow> seeded lib x) (urandom lib) (nat n) st"
    and ns: "ns = nodes st"
    by (rule generate_nodes_inv)
  from inv have len: "length (nodes st) = nat n" by (simp add: gen_inv_def)
  with assms(2) ns have "i < nat n" by simp
  with inv have "linked M (nodes st) i"
    "sampled (strftime lib) bmin bmax (s * 1000000) (e * 1000000)
       (case seed of None \<Rightarrow> unseeded lib | Some x \<Rightarrow> seeded lib x) (urandom lib) (nodes st) i"
    "1 \<le> level (nodes st ! i)"
    by (simp_all add: gen_inv_def)
  then show ?thesis using ns by (auto simp add: sampled_def)
qed

subsection \<open>Claims about the generated records\<close>

text \<open>
  C1. In every run of \<^verbatim>\<open>generate_nodes\<close> that returns, a record at index \<open>i\<close> whose
  \<^verbatim>\<open>Source\<close> is not the sentinel \<^verbatim>\<open>CDN\<close> has as \<^verbatim>\<open>Source\<close> the \<^verbatim>\<open>NodeId\<close> of a record at an
  index strictly below \<open>i\<close>: every edge points to an earlier node, so no cycle can
  form. The record at index 0 always has the sentinel, so the statement needs neither
  \<open>0 < i\<close> nor \<open>1 \<le> n\<close>.
\<close>

theorem source_names_earlier_node:
  assumes "generate_nodes lib n root_share max_children_hint buffer_min buffer_max start_ts end_ts
             max_level_tree seed = Inr ns"
    and "i < length ns"
    and "Source (ns ! i) \<noteq> ''CDN''"
  shows "\<exists>j<i. Source (ns ! i) = NodeId (ns ! j)"
proof -
  from generate_nodes_linked [OF assms(1,2)] have "linked max_level_tree ns i" by simp
  with assms(3) show ?thesis unfolding linked_def by blast
qed

theorem source_names_earlier_node_witness:
  "generate_nodes demo_lib 3 (1 / 10) 6 0 200 ''2025-01-01T00:00:00.000Z''
     ''2025-12-31T23:59:59.000Z'' 2 None = Inr demo_nodes \<and>
   2 < length demo_nodes \<and> Source (demo_nodes ! 2) \<noteq> ''CDN'' \<and>
   (\<exists>j<2. Source (demo_nodes ! 2) = NodeId (demo_nodes ! j))"
proof -
  have len: "2 < length demo_nodes" by (simp add: demo_nodes_def)
  have src: "Source (demo_nodes ! 2) \<noteq> ''CDN''" by (simp add: demo_nodes_def demo_node_def)
  from source_names_earlier_node [OF demo_run len src] demo_run len src show ?thesis by blast
qed

text \<open>
  C2. Every generated record has level 1 or more; its level is exactly 1 when its
  \<^verbatim>\<open>Source\<close> is the sentinel; otherwise some earlier record has the \<^verbatim>\<open>Source\<close> as
  \<^verbatim>\<open>NodeId\<close> and a level exactly one less, and when the identifiers of the run are
  distinct, every record that the \<^verbatim>\<open>Source\<close> names is earlier and one level less.
\<close>

theorem level_follows_source:
  assumes "generate_nodes lib n root_share max_children_hint buffer_min buffer_max start_ts end_ts
             max_level_tree seed = Inr ns"
    and "i < length ns"
  shows "1 \<le> level (ns ! i) \<and>
         (Source (ns ! i) = ''CDN'' \<longrightarrow> level (ns ! i) = 1) \<and>
         (Source (ns ! i) \<noteq> ''CDN'' \<longrightarrow>
            (\<exists>j<i. NodeId (ns ! j) = Source (ns ! i) \<and> level (ns ! i) = 1 + level (ns ! j)) \<and>
            (distinct (map NodeId ns) \<longrightarrow>
               (\<forall>j<length ns. NodeId (ns ! j) = Source (ns ! i) \<longrightarrow>
                  j < i \<and> level (ns ! i) = 1 + level (ns ! j))))"
proof -
  note run = assms(1)
  from generate_nodes_linked [OF run assms(2)]
  have lk: "linked max_level_tree ns i" and pos: "1 \<le> level (ns ! i)" by simp_all
  have root: "level (ns ! i) = 1" if cdn: "Source (ns ! i) = ''CDN''"
  proof (rule ccontr)
    assume "level (ns ! i) \<noteq> 1"
    with lk obtain j where j: "j < i" "Source (ns ! i) = NodeId (ns ! j)"
      unfolding linked_def by blast
    then have "j < length ns" using assms(2) by simp
    from generate_nodes_linked [OF run this] obtain b where "NodeId (ns ! j) = gen_uuid b" by blast
    with j cdn show False using gen_uuid_not_CDN [of b] by simp
  qed
  have child: "\<exists>j<i. NodeId (ns ! j) = Source (ns ! i) \<and> level (ns ! i) = 1 + level (ns ! j)"
    if "Source (ns ! i) \<noteq> ''CDN''"
    using lk that unfolding linked_def by auto
  have uniq: "j < i \<and> level (ns ! i) = 1 + level (ns ! j)"
    if ncdn: "Source (ns ! i) \<noteq> ''CDN''" and d: "distinct (map NodeId ns)"
      and j: "j < length ns" "NodeId (ns ! j) = Source (ns ! i)" for j
  proof -
    from child [OF ncdn] obtain j0 where
      j0: "j0 < i" "NodeId (ns ! j0) = Source (ns ! i)" "level (ns ! i) = 1 + level (ns ! j0)"
      by blast
    have "j0 < length ns" using j0(1) assms(2) by simp
    then have "map NodeId ns ! j0 = map NodeId ns ! j" using j j0(2) by simp
    moreover have "j0 < length (map NodeId ns)" "j < length (map NodeId ns)"
      using \<open>j0 < length ns\<close> j(1) by simp_all
    ultimately have "j0 = j" using d nth_eq_iff_index_eq by blast
    with j0 show ?thesis by simp
  qed
  from pos root child uniq show ?thesis by blast
qed

theorem level_follows_source_witness:
  "generate_nodes demo_lib 3 (1 / 10) 6 0 200 ''2025-01-01T00:00:00.000Z''
     ''2025-12-31T23:59:59.000Z'' 2 None = Inr demo_nodes \<and>
   2 < length demo_nodes \<and> Source (demo_nodes ! 2) \<noteq> ''CDN'' \<and> distinct (map NodeId demo_nodes) \<and>
   NodeId (demo_nodes ! 0) = Source (demo_nodes ! 2) \<and>
   level (demo_nodes ! 2) = 1 + level (demo_nodes ! 0) \<and>
   Source (demo_nodes ! 0) = ''CDN'' \<and> level (demo_nodes ! 0) = 1"
proof -
  have len: "2 < length demo_nodes" and len0: "0 < length demo_nodes"
    by (simp_all add: demo_nodes_def)
  have src: "Source (demo_nodes ! 2) \<noteq> ''CDN''" "Source (demo_nodes ! 0) = ''CDN''"
    "NodeId (demo_nodes ! 0) = Source (demo_nodes ! 2)"
    by (simp_all add: demo_nodes_def demo_node_def)
  have d: "distinct (map NodeId demo_nodes)" by (simp add: demo_nodes_def demo_node_def)
  from level_follows_source [OF demo_run len] level_follows_source [OF demo_run len0]
    demo_run len len0 src d
  show ?thesis by blast
qed

text \<open>
  C3. With a positive \<^verbatim>\<open>max_level_tree\<close>, no generated record has a level above it.
\<close>

theorem level_within_max_level_tree:
  assumes "generate_nodes lib n root_share max_children_hint buffer_min buffer_max start_ts end_ts
             max_level_tree seed = Inr ns"
    and "1 \<le> max_level_tree"
    and "i < length ns"
  shows "level (ns ! i) \<le> max_level_tree"
proof -
  from generate_nodes_linked [OF assms(1,3)] have "linked max_level_tree ns i" by simp
  with assms(2) show ?thesis unfolding linked_def by auto
qed

theorem level_within_max_level_tree_witness:
  "generate_nodes demo_lib 3 (1 / 10) 6 0 200 ''2025-01-01T00:00:00.000Z''
     ''2025-12-31T23:59:59.000Z'' 2 None = Inr demo_nodes \<and> (1::int) \<le> 2 \<and>
   1 < length demo_nodes \<and> level (demo_nodes ! 1) \<le> 2"
proof -
  have len: "1 < length demo_nodes" by (simp add: demo_nodes_def)
  have m: "(1::int) \<le> 2" by simp
  from level_within_max_level_tree [OF demo_run m len] demo_run len show ?thesis by simp
qed

lemma generate_nodes_Inl:
  assumes "generate_nodes lib n rs hint bmin bmax start_ts end_ts M seed = Inl err"
  shows "(\<exists>msg. err = SystemExit msg) \<or>
         (\<exists>s e. gen_loop (strftime lib) rs bmin bmax s e M
            (case seed of None \<Rightarrow> unseeded lib | Some x \<Rightarrow> seeded lib x) (urandom lib) (nat n) = Inl err)"
  using assms
  by (auto simp add: generate_nodes_def Let_def split: option.splits if_splits sum.splits)

text \<open>
  C4. With \<^verbatim>\<open>max_level_tree\<close> at least 2 the loop reaches every pass \<open>i\<close> without an
  exception, and at the start of every pass \<open>i > 0\<close> the list
  \<^verbatim>\<open>notes_under_max_level\<close> is not empty, so that \<^verbatim>\<open>random.choice\<close> on it cannot raise
  IndexError whatever it draws; hence \<^verbatim>\<open>generate_nodes\<close> never ends in that IndexError.
\<close>

theorem fallback_choice_never_fails:
  assumes "2 \<le> max_level_tree"
  shows "(\<exists>st. gen_loop f root_share buffer_min buffer_max start_dt end_dt max_level_tree rng ent i = Inr st \<and>
            (0 < i \<longrightarrow> notes_under_max_level st \<noteq> [] \<and>
               (\<forall>c. choice (notes_under_max_level st) c \<noteq> Inl IndexError))) \<and>
         generate_nodes lib n root_share max_children_hint buffer_min buffer_max start_ts end_ts
           max_level_tree seed \<noteq> Inl IndexError"
proof
  from gen_loop_total [OF assms] obtain st where
    st: "gen_loop f root_share buffer_min buffer_max start_dt end_dt max_level_tree rng ent i = Inr st"
    by blast
  from gen_loop_inv [OF st] assms have "0 < i \<longrightarrow> notes_under_max_level st \<noteq> []"
    by (simp add: gen_inv_def)
  then have "0 < i \<longrightarrow> notes_under_max_level st \<noteq> [] \<and>
               (\<forall>c. choice (notes_under_max_level st) c \<noteq> Inl IndexError)"
    by (simp add: choice_def)
  with st show "\<exists>st. gen_loop f root_share buffer_min buffer_max start_dt end_dt max_level_tree rng ent i = Inr st \<and>
            (0 < i \<longrightarrow> notes_under_max_level st \<noteq> [] \<and>
               (\<forall>c. choice (notes_under_max_level st) c \<noteq> Inl IndexError))"
    by blast
next
  show "generate_nodes lib n root_share max_children_hint buffer_min buffer_max start_ts end_ts
           max_level_tree seed \<noteq> Inl IndexError"
  proof
    assume "generate_nodes lib n root_share max_children_hint buffer_min buffer_max start_ts end_ts
           max_level_tree seed = Inl IndexError"
    from generate_nodes_Inl [OF this] obtain s e where
      "gen_loop (strftime lib) root_share buffer_min buffer_max s e max_level_tree
            (case seed of None \<Rightarrow> unseeded lib | Some x \<Rightarrow> seeded lib x) (urandom lib) (nat n) = Inl IndexError"
      by blast
    moreover from gen_loop_total [OF assms] obtain st where
      "gen_loop (strftime lib) root_share buffer_min buffer_max s e max_level_tree
            (case seed of None \<Rightarrow> unseeded lib | Some x \<Rightarrow> seeded lib x) (urandom lib) (nat n) = Inr st"
      by blast
    ultimately show False by simp
  qed
qed

theorem fallback_choice_never_fails_witness:
  "(2::int) \<le> 2 \<and>
   (\<exists>st. gen_loop demo_strftime (1 / 10) 0 200 1735689600000000 1767225599000000 2 demo_rnd
           demo_ids (Suc (Suc 0)) = Inr st \<and>
         notes_under_max_level st \<noteq> [] \<and>
         (\<forall>c. choice (notes_under_max_level st) c \<noteq> Inl IndexError)) \<and>
   generate_nodes demo_lib 3 (1 / 10) 6 0 200 ''2025-01-01T00:00:00.000Z''
     ''2025-12-31T23:59:59.000Z'' 2 None \<noteq> Inl IndexError"
proof -
  have m: "(2::int) \<le> 2" by simp
  from fallback_choice_never_fails [OF m, of demo_strftime "1 / 10" 0 200 1735689600000000
      1767225599000000 demo_rnd demo_ids "Suc (Suc 0)" demo_lib 3 6 "''2025-01-01T00:00:00.000Z''"
      "''2025-12-31T23:59:59.000Z''" None]
  show ?thesis by simp
qed

section \<open>Sampled values: rounding at work\<close>

text \<open>
  Three computations in which the rounding of binary64 decides the result. With the
  default bounds 0 and 200 the product \<^verbatim>\<open>(b - a) * random()\<close> rounds to a value just above
  199.965, so that \<^verbatim>\<open>round\<close> gives 199.97 where the exact product would give 199.96. Over the
  default time window the product \<^verbatim>\<open>r * total_seconds\<close> rounds to a value whose
  microseconds round up to the next second. And with bounds of magnitude \<open>10\<^sup>3\<^sup>0\<^sup>8\<close> the
  difference \<^verbatim>\<open>b - a\<close> overflows, and the health is an infinity, or NaN for the draw 0.
\<close>

lemma uniform_rounds_the_product:
  "round2 (uniform 0 200 9005622994871412) = Finite (7035818886603735 / 35184372088832)"
proof -
  have r: "random_unit 9005622994871412 = 2251405748717853 / 2251799813685248"
    by (simp add: random_unit_def)
  have prod_py: "py_round (56285143717946325 / 281474976710656 / 2 powi (7 - 52)) = 7035642964743291"
    by (rule py_round_near) (simp_all add: power_int_def power_divide)
  have prod: "fl (56285143717946325 / 281474976710656) = Finite (7035642964743291 / 35184372088832)"
    using fl_round [of 7 "56285143717946325 / 281474976710656" 7035642964743291] prod_py
    by (simp add: power_int_def power_divide)
  have sum: "fl (7035642964743291 / 35184372088832) = Finite (7035642964743291 / 35184372088832)"
    by (rule fl_exact [of _ 7035642964743291 "- 45"]) (simp_all add: power_int_def power_divide)
  have cents: "py_round (175891074118582275 / 8796093022208) = 19997"
    by (rule py_round_near) simp_all
  have rounded_py: "py_round (19997 / 100 / 2 powi (7 - 52)) = 7035818886603735"
    by (rule py_round_near) (simp_all add: power_int_def power_divide)
  have rounded: "fl (19997 / 100) = Finite (7035818886603735 / 35184372088832)"
    using fl_round [of 7 "19997 / 100" 7035818886603735] rounded_py
    by (simp add: power_int_def power_divide)
  show ?thesis
    by (simp add: uniform_def fsub_def fl_200 r prod sum cents rounded)
qed

lemma random_instant_rounds_the_product:
  "random_instant 1735689600000000 1767225599000000 4985270447653427 = 1753144025000000"
proof -
  have r: "random_unit 4985270447653427 = 4985270447653427 / 9007199254740992"
    by (simp add: random_unit_def)
  have total: "fl 31535999 = Finite 31535999" using fl_int [of 31535999] by simp
  have prod_py: "py_round (157215483851928026218573 / 9007199254740992 / 2 powi (24 - 52)) = 4685386534092666"
    by (rule py_round_near) (simp_all add: power_int_def power_divide)
  have prod: "fl (157215483851928026218573 / 9007199254740992) = Finite (2342693267046333 / 134217728)"
    using fl_round [of 24 "157215483851928026218573 / 9007199254740992" 4685386534092666] prod_py
    by (simp add: power_int_def power_divide)
  have ip: "\<lfloor>2342693267046333 / 134217728 :: rat\<rfloor> = 17454424" by (simp add: floor_eq_iff)
  have us_py: "py_round (2097150953125 / 2097152 / 2 powi (19 - 52)) = 8589930304000000"
    by (rule py_round_near) (simp_all add: power_int_def power_divide)
  have us: "fl_value (2097150953125 / 2097152) = 2097150953125 / 2097152"
    using fl_value_round [of 19 "2097150953125 / 2097152" 8589930304000000] us_py
    by (simp add: power_int_def power_divide)
  have whole: "py_round (36604582297598953125 / 2097152) = 17454425000000"
    by (rule py_round_near) simp_all
  show ?thesis
    by (simp add: random_instant_def total_seconds_def r total prod trunc_def ip us whole)
qed

lemma uniform_overflows:
  "round2 (uniform (- 100000000000000001097906362944045541740492309677311846336810682903157585404911491537163328978494688899061249669721172515611590283743140088328307009198146046031271664502933027185697489699588559043338384466165001178426897626212945177628091195786707458122783970171784415105291802893207873272974885715430223118336) 100000000000000001097906362944045541740492309677311846336810682903157585404911491537163328978494688899061249669721172515611590283743140088328307009198146046031271664502933027185697489699588559043338384466165001178426897626212945177628091195786707458122783970171784415105291802893207873272974885715430223118336 4503599627370496) = PInf \<and>
   round2 (uniform (- 100000000000000001097906362944045541740492309677311846336810682903157585404911491537163328978494688899061249669721172515611590283743140088328307009198146046031271664502933027185697489699588559043338384466165001178426897626212945177628091195786707458122783970171784415105291802893207873272974885715430223118336) 100000000000000001097906362944045541740492309677311846336810682903157585404911491537163328978494688899061249669721172515611590283743140088328307009198146046031271664502933027185697489699588559043338384466165001178426897626212945177628091195786707458122783970171784415105291802893207873272974885715430223118336 0) = NaN"
proof -
  have "fl (100000000000000001097906362944045541740492309677311846336810682903157585404911491537163328978494688899061249669721172515611590283743140088328307009198146046031271664502933027185697489699588559043338384466165001178426897626212945177628091195786707458122783970171784415105291802893207873272974885715430223118336 + 100000000000000001097906362944045541740492309677311846336810682903157585404911491537163328978494688899061249669721172515611590283743140088328307009198146046031271664502933027185697489699588559043338384466165001178426897626212945177628091195786707458122783970171784415105291802893207873272974885715430223118336) = PInf"
    by (rule fl_overflow) simp
  then show ?thesis
    by (simp add: uniform_def fsub_def random_unit_def)
qed

section \<open>Sampled values: the health\<close>

lemma fl_0: "fl 0 = Finite 0"
  by (simp add: fl_def fl_value_def)

lemma low_health: "round2 (uniform (1 / 512) (1 / 256) 4503599627370496) = Finite 0"
proof -
  have a: "fl (1 / 512) = Finite (1 / 512)"
    by (rule fl_exact [of _ 1 "- 9"]) (simp_all add: power_int_def power_divide)
  have b: "fl (1 / 1024) = Finite (1 / 1024)"
    by (rule fl_exact [of _ 1 "- 10"]) (simp_all add: power_int_def power_divide)
  have c: "fl (3 / 1024) = Finite (3 / 1024)"
    by (rule fl_exact [of _ 3 "- 10"]) (simp_all add: power_int_def power_divide)
  have d: "\<lfloor>75 / 256 :: rat\<rfloor> = 0" by (simp add: floor_eq_iff)
  show ?thesis
    by (simp add: uniform_def fsub_def random_unit_def a b c d fl_0 py_round_def)
qed

lemma low_health_loop:
  "gen_loop demo_strftime (1 / 10) (1 / 512) (1 / 256) 1735689600000000 1767225599000000 2
     demo_rnd demo_ids (Suc 0) =
   Inr \<lparr>nodes = [low_health_node], notes_under_max_level = [low_health_node]\<rparr>"
  by (simp add: gen_loop_Suc gen_loop_0 gen_body_def choose_source_def Let_def demo_rnd_def
      demo_ids_def demo_timestamp gen_uuid_0 gen_uuid_255 low_health_node_def low_health)

lemma low_health_run:
  "generate_nodes demo_lib 1 (1 / 10) 6 (1 / 512) (1 / 256) ''2025-01-01T00:00:00.000Z''
     ''2025-12-31T23:59:59.000Z'' 2 None = Inr [low_health_node]"
  using low_health_loop
  by (simp add: generate_nodes_def demo_lib_def demo_strptime_def)

text \<open>
  C9. The claim says that every \<^verbatim>\<open>BufferHealth\<close> lies within the closed interval from
  \<^verbatim>\<open>buffer_min\<close> to \<^verbatim>\<open>buffer_max\<close>, the bounds that the help texts of the program call
  inclusive. The code differs: it rounds the value drawn to two decimal places, and the
  rounded value can leave the interval. With \<^verbatim>\<open>buffer_min\<close> 0.001953125 and \<^verbatim>\<open>buffer_max\<close>
  0.00390625, \<^verbatim>\<open>random.uniform\<close> draws 0.0029296875 and \<^verbatim>\<open>round\<close> makes it 0.0, which is below
  \<^verbatim>\<open>buffer_min\<close>.
\<close>

theorem buffer_health_below_buffer_min:
  "(1 / 512 :: rat) \<le> 1 / 256 \<and>
   generate_nodes demo_lib 1 (1 / 10) 6 (1 / 512) (1 / 256) ''2025-01-01T00:00:00.000Z''
     ''2025-12-31T23:59:59.000Z'' 2 None = Inr [low_health_node] \<and>
   BufferHealth low_health_node = Finite 0 \<and>
   \<not> fle (Finite (1 / 512)) (BufferHealth low_health_node)"
  using low_health_run by (simp add: low_health_node_def)

section \<open>The export\<close>

subsection \<open>The loop over the lines\<close>

lemma jsonl_rows_skips_blank:
  "jsonl_rows ld ls w out = jsonl_rows ld (filter (\<lambda>l. strip l \<noteq> []) ls) w out"
proof (induction ls arbitrary: w out)
  case Nil
  show ?case by simp
next
  case (Cons l ls)
  show ?case
  proof (cases "strip l = []")
    case True
    then show ?thesis using Cons.IH by simp
  next
    case False
    then show ?thesis
      using Cons.IH by (simp add: Let_def split: option.splits sum.splits prod.splits)
  qed
qed

lemma writerow_extra:
  "\<not> set (map fst kvs) \<subseteq> set fs \<Longrightarrow> writerow fs (JObj kvs) = Inl ValueError"
  by (auto simp add: writerow_def)

lemma jsonl_rows_step:
  assumes "strip l \<noteq> []"
  shows "jsonl_rows ld (l # ls) (Some fs) out =
     (case ld (strip l) of
        None \<Rightarrow> Inl JSONDecodeError
      | Some obj \<Rightarrow>
          (case writerow fs obj of
             Inl e \<Rightarrow> Inl e
           | Inr row \<Rightarrow> jsonl_rows ld ls (Some fs) (out @ [row])))"
  using assms by (simp add: Let_def split: option.splits)

lemma jsonl_rows_extra_field:
  assumes "l \<in> set ls" and "strip l \<noteq> []" and "ld (strip l) = Some (JObj kvs)"
    and "\<not> set (map fst kvs) \<subseteq> set fs"
  shows "\<exists>err. jsonl_rows ld ls (Some fs) out = Inl err"
  using assms(1)
proof (induction ls arbitrary: out)
  case Nil
  then show ?case by simp
next
  case (Cons l' ls)
  show ?case
  proof (cases "l' = l")
    case True
    then show ?thesis
      using assms(2,3) writerow_extra [OF assms(4)] by (simp add: jsonl_rows_step)
  next
    case False
    with Cons.prems have mem: "l \<in> set ls" by simp
    show ?thesis
    proof (cases "strip l' = []")
      case True
      then show ?thesis using Cons.IH [OF mem] by simp
    next
      case nb: False
      show ?thesis
      proof (cases "ld (strip l')")
        case None
        then show ?thesis using nb by (simp add: jsonl_rows_step)
      next
        case (Some obj)
        show ?thesis
        proof (cases "writerow fs obj")
          case (Inl e)
          then show ?thesis using nb Some by (simp add: jsonl_rows_step)
        next
          case (Inr row)
          then show ?thesis
            using nb Some Cons.IH [OF mem, of "out @ [row]"] by (simp add: jsonl_rows_step)
        qed
      qed
    qed
  qed
qed

lemma writerow_own_keys:
  "\<exists>row. writerow (map fst kvs) (JObj kvs) = Inr row"
  by (simp add: writerow_def)

lemma jsonl_rows_first:
  assumes "strip l0 \<noteq> []" and "ld (strip l0) = Some (JObj kvs0)"
  shows "\<exists>row. jsonl_rows ld (l0 # rest) None [] =
           jsonl_rows ld rest (Some (map fst kvs0)) [writeheader (map fst kvs0), row]"
proof -
  from writerow_own_keys [of kvs0] obtain row where
    "writerow (map fst kvs0) (JObj kvs0) = Inr row" by blast
  then have "jsonl_rows ld (l0 # rest) None [] =
           jsonl_rows ld rest (Some (map fst kvs0)) [writeheader (map fst kvs0), row]"
    using assms by (simp add: Let_def keys_def)
  then show ?thesis by (rule exI)
qed

lemma jsonl_rows_length:
  assumes "jsonl_rows ld ls w out = Inr c"
  shows "length c = length out + length (filter (\<lambda>l. strip l \<noteq> []) ls) +
           (if w = None \<and> filter (\<lambda>l. strip l \<noteq> []) ls \<noteq> [] then 1 else 0)"
  using assms
proof (induction ls arbitrary: w out)
  case Nil
  then show ?case by simp
next
  case (Cons l ls)
  show ?case
  proof (cases "strip l = []")
    case True
    then show ?thesis using Cons by simp
  next
    case nb: False
    from Cons.prems nb obtain obj where obj: "ld (strip l) = Some obj"
      by (auto simp add: Let_def split: option.splits)
    show ?thesis
    proof (cases w)
      case None
      from Cons.prems nb obj None obtain fs row where
        "jsonl_rows ld ls (Some fs) (out @ [writeheader fs] @ [row]) = Inr c"
        by (auto simp add: Let_def split: sum.splits)
      from Cons.IH [OF this] show ?thesis using nb None by simp
    next
      case (Some fs)
      from Cons.prems nb obj Some obtain row where
        "jsonl_rows ld ls (Some fs) (out @ [row]) = Inr c"
        by (auto simp add: Let_def split: sum.splits)
      from Cons.IH [OF this] show ?thesis using nb Some by simp
    qed
  qed
qed

subsection \<open>The sample texts\<close>

lemma isspace_simps:
  "isspace (CHR '' '')" "isspace (CHR 10)" "\<not> isspace (CHR ''{'')" "\<not> isspace (CHR ''}'')"
  by (simp_all add: isspace_def)

lemma splitlines_line:
  "CHR 10 \<notin> set s \<Longrightarrow> splitlines (s @ CHR 10 # t) = (s @ [CHR 10]) # splitlines t"
  by (induction s) auto

lemma demo_root_line_strip: "strip (demo_root_line @ [CHR 10]) = demo_root_line"
  by (simp add: strip_def demo_root_line_def isspace_simps)

subsection \<open>A field the first object lacks\<close>

text \<open>
  C10. When the first line that is not blank parses to an object and a later line that
  is not blank parses to an object with a field name the first lacks, the export of
  JSON lines ends in an exception. The lines are those of the file read with universal
  newlines. Lines that are empty after \<^verbatim>\<open>strip()\<close> are skipped:
  the export is the export of the other lines alone, and an export that succeeds has
  written one header and one row for each line that is not blank.
\<close>

theorem jsonl_export_extra_field_raises:
  "(\<forall>l0 rest kvs0.
      filter (\<lambda>l. strip l \<noteq> []) (splitlines (universal_newlines infile)) = l0 # rest \<and>
      ld (strip l0) = Some (JObj kvs0) \<and>
      (\<exists>l \<in> set rest. \<exists>kvs. ld (strip l) = Some (JObj kvs) \<and>
         \<not> set (map fst kvs) \<subseteq> set (map fst kvs0)) \<longrightarrow>
      (\<exists>err. stream_jsonl_to_csv ld infile = Inl err)) \<and>
   stream_jsonl_to_csv ld infile =
     jsonl_rows ld (filter (\<lambda>l. strip l \<noteq> []) (splitlines (universal_newlines infile))) None [] \<and>
   (\<forall>c. stream_jsonl_to_csv ld infile = Inr c \<longrightarrow>
      length c = (if filter (\<lambda>l. strip l \<noteq> []) (splitlines (universal_newlines infile)) = [] then 0
                  else 1 + length (filter (\<lambda>l. strip l \<noteq> []) (splitlines (universal_newlines infile)))))"
proof (intro conjI allI impI)
  fix l0 rest kvs0
  let ?nb = "filter (\<lambda>l. strip l \<noteq> []) (splitlines (universal_newlines infile))"
  assume a: "?nb = l0 # rest \<and> ld (strip l0) = Some (JObj kvs0) \<and>
      (\<exists>l \<in> set rest. \<exists>kvs. ld (strip l) = Some (JObj kvs) \<and>
         \<not> set (map fst kvs) \<subseteq> set (map fst kvs0))"
  then obtain l kvs where nb: "?nb = l0 # rest" and l0: "ld (strip l0) = Some (JObj kvs0)"
    and l: "l \<in> set rest" "ld (strip l) = Some (JObj kvs)"
      "\<not> set (map fst kvs) \<subseteq> set (map fst kvs0)"
    by blast
  have "l0 \<in> set ?nb" using nb by simp
  then have s0: "strip l0 \<noteq> []" by simp
  have "l \<in> set ?nb" using nb l(1) by simp
  then have sl: "strip l \<noteq> []" by simp
  from jsonl_rows_first [of l0 ld kvs0 rest, OF s0 l0] obtain row where
    first: "jsonl_rows ld (l0 # rest) None [] =
           jsonl_rows ld rest (Some (map fst kvs0)) [writeheader (map fst kvs0), row]" by blast
  from jsonl_rows_extra_field [of l rest ld kvs "map fst kvs0", OF l(1) sl l(2,3)] obtain err where
    "jsonl_rows ld rest (Some (map fst kvs0)) [writeheader (map fst kvs0), row] = Inl err" by blast
  with first nb have "jsonl_rows ld ?nb None [] = Inl err" by simp
  then have "stream_jsonl_to_csv ld infile = Inl err"
    by (simp only: stream_jsonl_to_csv_def jsonl_rows_skips_blank [of ld "splitlines (universal_newlines infile)"])
  then show "\<exists>err. stream_jsonl_to_csv ld infile = Inl err" by blast
next
  show "stream_jsonl_to_csv ld infile =
     jsonl_rows ld (filter (\<lambda>l. strip l \<noteq> []) (splitlines (universal_newlines infile))) None []"
    by (simp only: stream_jsonl_to_csv_def jsonl_rows_skips_blank [of ld "splitlines (universal_newlines infile)"])
next
  fix c
  assume "stream_jsonl_to_csv ld infile = Inr c"
  then have "jsonl_rows ld (splitlines (universal_newlines infile)) None [] = Inr c"
    by (simp only: stream_jsonl_to_csv_def)
  from jsonl_rows_length [OF this]
  show "length c = (if filter (\<lambda>l. strip l \<noteq> []) (splitlines (universal_newlines infile)) = [] then 0
                  else 1 + length (filter (\<lambda>l. strip l \<noteq> []) (splitlines (universal_newlines infile))))"
    by simp
qed

theorem jsonl_export_extra_field_raises_witness:
  "filter (\<lambda>l. strip l \<noteq> []) (splitlines (universal_newlines extra_field_file)) =
     [first_line @ [CHR 10], extra_line @ [CHR 10]] \<and>
   loads demo_codec (strip (first_line @ [CHR 10])) = Some (JObj [(''a'', JInt 1)]) \<and>
   loads demo_codec (strip (extra_line @ [CHR 10])) = Some (JObj [(''a'', JInt 2), (''b'', JInt 3)]) \<and>
   \<not> set (map fst [(''a'', JInt 2), (''b'', JInt 3)]) \<subseteq> set (map fst [(''a'', JInt 1)]) \<and>
   (\<exists>err. stream_jsonl_to_csv (loads demo_codec) extra_field_file = Inl err)"
proof -
  have s1: "strip (first_line @ [CHR 10]) = first_line"
    by (simp add: strip_def first_line_def isspace_simps)
  have s2: "strip (extra_line @ [CHR 10]) = extra_line"
    by (simp add: strip_def extra_line_def isspace_simps)
  have s3: "strip (''   '' @ [CHR 10]) = []"
    by (simp add: strip_def isspace_simps)
  have n1: "first_line \<noteq> []" and n2: "extra_line \<noteq> []"
    by (simp_all add: first_line_def extra_line_def)
  have sp: "splitlines (universal_newlines extra_field_file) =
      [first_line @ [CHR 10], ''   '' @ [CHR 10], extra_line @ [CHR 10]]"
    by (simp add: extra_field_file_def first_line_def extra_line_def)
  have a: "filter (\<lambda>l. strip l \<noteq> []) (splitlines (universal_newlines extra_field_file)) =
     [first_line @ [CHR 10], extra_line @ [CHR 10]]"
    unfolding sp using s1 s2 s3 n1 n2 by simp
  have b: "loads demo_codec (strip (first_line @ [CHR 10])) = Some (JObj [(''a'', JInt 1)])"
    unfolding s1 by (simp add: demo_codec_def first_line_def demo_root_line_def)
  have c: "loads demo_codec (strip (extra_line @ [CHR 10])) =
      Some (JObj [(''a'', JInt 2), (''b'', JInt 3)])"
    unfolding s2 by (simp add: demo_codec_def first_line_def extra_line_def demo_root_line_def)
  have d: "\<not> set (map fst [(''a'', JInt 2), (''b'', JInt 3)]) \<subseteq> set (map fst [(''a'', JInt 1)])"
    by simp
  from jsonl_export_extra_field_raises [of extra_field_file "loads demo_codec"] a b c d
  have "\<exists>err. stream_jsonl_to_csv (loads demo_codec) extra_field_file = Inl err"
    by (metis list.set_intros(1))
  with a b c d show ?thesis by blast
qed

subsection \<open>The export of the written records\<close>

lemma universal_newlines_id:
  "CHR 13 \<notin> set s \<Longrightarrow> universal_newlines s = s"
  by (induction s rule: universal_newlines.induct) auto

lemma splitlines_write_jsonl:
  assumes "\<forall>row \<in> set rows. CHR 10 \<notin> set (dm (as_dict row)) \<and> CHR 13 \<notin> set (dm (as_dict row))"
  shows "splitlines (universal_newlines (write_jsonl dm rows)) =
           map (\<lambda>row. dm (as_dict row) @ [CHR 10]) rows"
proof -
  have "CHR 13 \<notin> set (write_jsonl dm rows)"
    using assms by (induction rows) (simp_all add: write_jsonl_def)
  then have "universal_newlines (write_jsonl dm rows) = write_jsonl dm rows"
    by (rule universal_newlines_id)
  moreover have "splitlines (write_jsonl dm rows) = map (\<lambda>row. dm (as_dict row) @ [CHR 10]) rows"
    using assms by (induction rows) (simp_all add: write_jsonl_def splitlines_line)
  ultimately show ?thesis by simp
qed

lemma keys_as_dict: "keys (as_dict row) = Inr level_header"
  by (simp add: keys_def as_dict_def level_header_def)

lemma writerow_as_dict: "writerow level_header (as_dict row) = Inr (level_row row)"
  by (simp add: writerow_def as_dict_def level_header_def level_row_def)

lemma jsonl_rows_written:
  assumes "\<forall>row \<in> set rows. strip (dm (as_dict row) @ [CHR 10]) \<noteq> [] \<and>
             ld (strip (dm (as_dict row) @ [CHR 10])) = Some (as_dict row)"
  shows "jsonl_rows ld (map (\<lambda>row. dm (as_dict row) @ [CHR 10]) rows) (Some level_header) out =
           Inr (out @ map level_row rows)"
  using assms
proof (induction rows arbitrary: out)
  case Nil
  show ?case by simp
next
  case (Cons row rows)
  from Cons.prems have
    nb: "strip (dm (as_dict row) @ [CHR 10]) \<noteq> []" and
    ld: "ld (strip (dm (as_dict row) @ [CHR 10])) = Some (as_dict row)" and
    rest: "\<forall>row \<in> set rows. strip (dm (as_dict row) @ [CHR 10]) \<noteq> [] \<and>
             ld (strip (dm (as_dict row) @ [CHR 10])) = Some (as_dict row)"
    by simp_all
  have "jsonl_rows ld (map (\<lambda>row. dm (as_dict row) @ [CHR 10]) (row # rows)) (Some level_header) out =
        jsonl_rows ld (map (\<lambda>row. dm (as_dict row) @ [CHR 10]) rows) (Some level_header)
          (out @ [level_row row])"
    using nb ld by (simp add: jsonl_rows_step writerow_as_dict)
  also have "\<dots> = Inr ((out @ [level_row row]) @ map level_row rows)"
    by (rule Cons.IH [OF rest])
  finally show ?case by simp
qed

text \<open>
  C6. The claim says that the CSV written from the JSON lines of the records has the
  five columns \<^verbatim>\<open>timestamp\<close>, \<^verbatim>\<open>NodeId\<close>, \<^verbatim>\<open>BufferHealth\<close>, \<^verbatim>\<open>SessionId\<close>, \<^verbatim>\<open>Source\<close> and
  omits \<^verbatim>\<open>level\<close>. The code differs: for \<open>n \<ge> 1\<close> records, whenever \<^verbatim>\<open>json.dumps\<close> prints
  a record on one line, without a line feed or carriage return, and \<^verbatim>\<open>json.loads\<close> reads
  it back, the export has one header and \<open>n\<close> rows, as claimed,
  but its columns are the keys of the first object, and \<^verbatim>\<open>level\<close> is one of them.
  \<^verbatim>\<open>json_array_to_csv\<close> keeps only the names in \<^verbatim>\<open>headers_clue\<close>;
  \<^verbatim>\<open>stream_jsonl_to_csv\<close> misses that filter.
\<close>

theorem jsonl_export_keeps_level:
  assumes "rows \<noteq> []"
    and "\<forall>row \<in> set rows. CHR 10 \<notin> set (dm (as_dict row)) \<and>
           CHR 13 \<notin> set (dm (as_dict row)) \<and>
           strip (dm (as_dict row) @ [CHR 10]) \<noteq> [] \<and>
           ld (strip (dm (as_dict row) @ [CHR 10])) = Some (as_dict row)"
  shows "stream_jsonl_to_csv ld (write_jsonl dm rows) =
           Inr (writeheader
                  [''timestamp'', ''NodeId'', ''BufferHealth'', ''SessionId'', ''Source'', ''level''] #
                map level_row rows)"
proof -
  from assms(1) obtain row rest where rows: "rows = row # rest" by (cases rows) simp_all
  have lines: "splitlines (universal_newlines (write_jsonl dm rows)) =
      map (\<lambda>row. dm (as_dict row) @ [CHR 10]) rows"
    using assms(2) by (intro splitlines_write_jsonl) simp
  have nb: "strip (dm (as_dict row) @ [CHR 10]) \<noteq> []"
    and ld: "ld (strip (dm (as_dict row) @ [CHR 10])) = Some (as_dict row)"
    using assms(2) rows by simp_all
  have rest: "\<forall>row \<in> set rest. strip (dm (as_dict row) @ [CHR 10]) \<noteq> [] \<and>
             ld (strip (dm (as_dict row) @ [CHR 10])) = Some (as_dict row)"
    using assms(2) rows by simp
  have "jsonl_rows ld (map (\<lambda>row. dm (as_dict row) @ [CHR 10]) (row # rest)) None [] =
        jsonl_rows ld (map (\<lambda>row. dm (as_dict row) @ [CHR 10]) rest) (Some level_header)
          [writeheader level_header, level_row row]"
    using nb ld by (simp add: Let_def keys_as_dict writerow_as_dict)
  also have "\<dots> = Inr ([writeheader level_header, level_row row] @ map level_row rest)"
    by (rule jsonl_rows_written [OF rest])
  finally show ?thesis
    using rows lines by (simp add: stream_jsonl_to_csv_def level_header_def)
qed

theorem jsonl_export_keeps_level_witness:
  "[demo_root] \<noteq> [] \<and> CHR 10 \<notin> set (dumps demo_codec (as_dict demo_root)) \<and>
   CHR 13 \<notin> set (dumps demo_codec (as_dict demo_root)) \<and>
   strip (dumps demo_codec (as_dict demo_root) @ [CHR 10]) \<noteq> [] \<and>
   loads demo_codec (strip (dumps demo_codec (as_dict demo_root) @ [CHR 10])) =
     Some (as_dict demo_root) \<and>
   stream_jsonl_to_csv (loads demo_codec) (write_jsonl (dumps demo_codec) [demo_root]) =
     Inr [[JStr ''timestamp'', JStr ''NodeId'', JStr ''BufferHealth'', JStr ''SessionId'',
           JStr ''Source'', JStr ''level''],
          [JStr ''2025-04-02T05:59:59.000Z'', JStr ''00000000-0000-4000-8000-000000000000'',
           JFloat (Finite 100), JStr ''00000000-0000-4000-8000-0000000000ff'', JStr ''CDN'', JInt 1]]"
proof -
  have d: "dumps demo_codec (as_dict demo_root) = demo_root_line" by (simp add: demo_codec_def)
  have a: "CHR 10 \<notin> set (dumps demo_codec (as_dict demo_root))"
    by (simp add: d) (simp add: demo_root_line_def)
  have a': "CHR 13 \<notin> set (dumps demo_codec (as_dict demo_root))"
    by (simp add: d) (simp add: demo_root_line_def)
  have b: "strip (dumps demo_codec (as_dict demo_root) @ [CHR 10]) \<noteq> []"
    by (simp add: d demo_root_line_strip) (simp add: demo_root_line_def)
  have c: "loads demo_codec (strip (dumps demo_codec (as_dict demo_root) @ [CHR 10])) =
     Some (as_dict demo_root)"
    by (simp add: d demo_root_line_strip) (simp add: demo_codec_def)
  have ne: "[demo_root] \<noteq> []" by simp
  have h: "\<forall>row \<in> set [demo_root]. CHR 10 \<notin> set (dumps demo_codec (as_dict row)) \<and>
           CHR 13 \<notin> set (dumps demo_codec (as_dict row)) \<and>
           strip (dumps demo_codec (as_dict row) @ [CHR 10]) \<noteq> [] \<and>
           loads demo_codec (strip (dumps demo_codec (as_dict row) @ [CHR 10])) = Some (as_dict row)"
    using a a' b c by simp
  from jsonl_export_keeps_level [OF ne h] a a' b c show ?thesis
    by (simp add: writeheader_def level_row_def demo_root_def demo_node_def)
qed

section \<open>The whole run\<close>

subsection \<open>The checks of the arguments\<close>

lemma zero_depth_loop:
  "gen_loop demo_strftime (1 / 10) 0 200 1735689600000000 1767225599000000 0 demo_rnd demo_ids
     (Suc 0) = Inr \<lparr>nodes = [demo_root], notes_under_max_level = []\<rparr>"
  by (simp add: gen_loop_Suc gen_loop_0 gen_body_def choose_source_def Let_def demo_rnd_def
      demo_ids_def demo_timestamp demo_health gen_uuid_0 gen_uuid_255 demo_root_def demo_node_def)

lemma zero_depth_run:
  "generate_nodes demo_lib 1 (1 / 10) 6 0 200 ''2025-01-01T00:00:00.000Z''
     ''2025-12-31T23:59:59.000Z'' 0 None = Inr [demo_root]"
  using zero_depth_loop
  by (simp add: generate_nodes_def demo_lib_def demo_strptime_def)

text \<open>
  C7, as stated, fails: no line of the program looks at the sign of
  \<^verbatim>\<open>max_level_tree\<close>. With the default arguments, one row and a depth ceiling of 0 the run
  returns 0, having written one record, of level 1.
\<close>

theorem main_accepts_zero_depth:
  "arg_max_level_tree zero_depth_args \<le> 0 \<and>
   main demo_lib demo_codec zero_depth_args =
     Inr \<lparr>out_file = demo_root_line @ [CHR 10], csv_file = None\<rparr> \<and>
   level demo_root = 1"
  using zero_depth_run
  by (simp add: main_def zero_depth_args_def write_jsonl_def demo_codec_def demo_root_def
      demo_node_def)

lemma generate_nodes_bad_time:
  assumes "case (strptime lib start_ts, strptime lib end_ts) of (Some s, Some e) \<Rightarrow> e \<le> s | _ \<Rightarrow> True"
  shows "\<exists>msg \<in> exit_messages.
           generate_nodes lib n rs hint bmin bmax start_ts end_ts M seed = Inl (SystemExit msg) \<and>
           (\<forall>lib'. strptime lib' = strptime lib \<longrightarrow>
              generate_nodes lib' n rs hint bmin bmax start_ts end_ts M seed = Inl (SystemExit msg))"
  using assms
  by (auto simp add: generate_nodes_def exit_messages_def Let_def split: option.splits)

text \<open>
  C7, amended. A row count that is not positive, a root share outside \<open>[0, 1]\<close>, health
  bounds in the wrong order, a timestamp text the library cannot read and an end that is
  not after the start each end the run in \<^verbatim>\<open>SystemExit\<close> with one of the five messages of
  the program, before any record is generated: the outcome is the same whatever the
  random draws and the module \<^verbatim>\<open>json\<close> are.
\<close>

theorem main_rejects_bad_configuration:
  assumes "config_error lib a"
  shows "\<exists>msg \<in> exit_messages.
           main lib codec a = Inl (SystemExit msg) \<and>
           (\<forall>lib' codec'. strptime lib' = strptime lib \<longrightarrow>
              main lib' codec' a = Inl (SystemExit msg))"
proof (cases "arg_rows a \<le> 0 \<or> \<not> (0 \<le> arg_root_share a \<and> arg_root_share a \<le> 1) \<or>
     arg_buffer_max a < arg_buffer_min a")
  case True
  then show ?thesis
    by (auto simp add: main_def exit_messages_def)
next
  case False
  with assms have bad: "case (strptime lib (arg_start_ts a), strptime lib (arg_end_ts a)) of
        (Some s, Some e) \<Rightarrow> e \<le> s | _ \<Rightarrow> True"
    by (simp add: config_error_def)
  from generate_nodes_bad_time [OF bad, of "arg_rows a" "arg_root_share a"
      "arg_max_children_hint a" "arg_buffer_min a" "arg_buffer_max a" "arg_max_level_tree a"
      "arg_seed a"]
  obtain msg where msg: "msg \<in> exit_messages"
    "generate_nodes lib (arg_rows a) (arg_root_share a) (arg_max_children_hint a)
       (arg_buffer_min a) (arg_buffer_max a) (arg_start_ts a) (arg_end_ts a)
       (arg_max_level_tree a) (arg_seed a) = Inl (SystemExit msg)"
    "\<And>lib'. strptime lib' = strptime lib \<Longrightarrow>
       generate_nodes lib' (arg_rows a) (arg_root_share a) (arg_max_children_hint a)
       (arg_buffer_min a) (arg_buffer_max a) (arg_start_ts a) (arg_end_ts a)
       (arg_max_level_tree a) (arg_seed a) = Inl (SystemExit msg)"
    by blast
  have "main lib codec a = Inl (SystemExit msg)"
    using False msg(2) by (simp add: main_def)
  moreover have "main lib' codec' a = Inl (SystemExit msg)" if "strptime lib' = strptime lib"
    for lib' codec'
    using False msg(3) [OF that] by (simp add: main_def)
  ultimately show ?thesis using msg(1) by blast
qed

theorem main_rejects_bad_configuration_witness:
  "config_error demo_lib (zero_depth_args\<lparr>arg_end_ts := ''2025-01-01T00:00:00.000Z''\<rparr>) \<and>
   main demo_lib demo_codec (zero_depth_args\<lparr>arg_end_ts := ''2025-01-01T00:00:00.000Z''\<rparr>) =
     Inl (SystemExit ''--end-ts must be after --start-ts'')"
proof -
  have c: "config_error demo_lib (zero_depth_args\<lparr>arg_end_ts := ''2025-01-01T00:00:00.000Z''\<rparr>)"
    by (simp add: config_error_def zero_depth_args_def demo_lib_def demo_strptime_def)
  from main_rejects_bad_configuration [OF c, of demo_codec] obtain msg where
    "main demo_lib demo_codec (zero_depth_args\<lparr>arg_end_ts := ''2025-01-01T00:00:00.000Z''\<rparr>) =
       Inl (SystemExit msg)" by blast
  moreover have
    "main demo_lib demo_codec (zero_depth_args\<lparr>arg_end_ts := ''2025-01-01T00:00:00.000Z''\<rparr>) =
       Inl (SystemExit ''--end-ts must be after --start-ts'')"
    by (simp add: main_def zero_depth_args_def generate_nodes_def demo_lib_def demo_strptime_def)
  ultimately show ?thesis using c by simp
qed

subsection \<open>The seed\<close>

lemma other_ids_loop:
  "gen_loop demo_strftime (1 / 10) 0 200 1735689600000000 1767225599000000 2 demo_rnd other_ids
     (Suc 0) =
   Inr \<lparr>nodes = [demo_root\<lparr>NodeId := ''00000000-0000-4000-8000-000000000001''\<rparr>],
        notes_under_max_level = [demo_root\<lparr>NodeId := ''00000000-0000-4000-8000-000000000001''\<rparr>]\<rparr>"
  by (simp add: gen_loop_Suc gen_loop_0 gen_body_def choose_source_def Let_def demo_rnd_def
      other_ids_def demo_timestamp demo_health gen_uuid_1 gen_uuid_255 demo_root_def demo_node_def)

lemma seeded_loop:
  "gen_loop demo_strftime (1 / 10) 0 200 1735689600000000 1767225599000000 2 demo_rnd demo_ids
     (Suc 0) = Inr \<lparr>nodes = [demo_root], notes_under_max_level = [demo_root]\<rparr>"
  by (simp add: gen_loop_Suc gen_loop_0 gen_body_def choose_source_def Let_def demo_rnd_def
      demo_ids_def demo_timestamp demo_health gen_uuid_0 gen_uuid_255 demo_root_def demo_node_def)

text \<open>
  C5. The claim says that two runs with the same configuration and seed write the same
  bytes. The code differs: \<^verbatim>\<open>random.seed\<close> fixes the draws of the module \<^verbatim>\<open>random\<close> only,
  and \<^verbatim>\<open>gen_uuid\<close> reads \<^verbatim>\<open>os.urandom\<close>. Two runs of one row with seed 42 and the same
  seeded draws, which get different bytes from \<^verbatim>\<open>os.urandom\<close>, return different records.
\<close>

theorem same_seed_different_output:
  "seeded (demo_lib\<lparr>urandom := other_ids\<rparr>) = seeded demo_lib \<and>
   generate_nodes demo_lib 1 (1 / 10) 6 0 200 ''2025-01-01T00:00:00.000Z''
     ''2025-12-31T23:59:59.000Z'' 2 (Some 42) = Inr [demo_root] \<and>
   generate_nodes (demo_lib\<lparr>urandom := other_ids\<rparr>) 1 (1 / 10) 6 0 200 ''2025-01-01T00:00:00.000Z''
     ''2025-12-31T23:59:59.000Z'' 2 (Some 42) =
     Inr [demo_root\<lparr>NodeId := ''00000000-0000-4000-8000-000000000001''\<rparr>] \<and>
   generate_nodes demo_lib 1 (1 / 10) 6 0 200 ''2025-01-01T00:00:00.000Z''
     ''2025-12-31T23:59:59.000Z'' 2 (Some 42) \<noteq>
   generate_nodes (demo_lib\<lparr>urandom := other_ids\<rparr>) 1 (1 / 10) 6 0 200 ''2025-01-01T00:00:00.000Z''
     ''2025-12-31T23:59:59.000Z'' 2 (Some 42)"
proof -
  have a: "generate_nodes demo_lib 1 (1 / 10) 6 0 200 ''2025-01-01T00:00:00.000Z''
     ''2025-12-31T23:59:59.000Z'' 2 (Some 42) = Inr [demo_root]"
    using seeded_loop by (simp add: generate_nodes_def demo_lib_def demo_strptime_def)
  have b: "generate_nodes (demo_lib\<lparr>urandom := other_ids\<rparr>) 1 (1 / 10) 6 0 200
     ''2025-01-01T00:00:00.000Z'' ''2025-12-31T23:59:59.000Z'' 2 (Some 42) =
     Inr [demo_root\<lparr>NodeId := ''00000000-0000-4000-8000-000000000001''\<rparr>]"
    using other_ids_loop by (simp add: generate_nodes_def demo_lib_def demo_strptime_def)
  have c: "demo_root \<noteq> demo_root\<lparr>NodeId := ''00000000-0000-4000-8000-000000000001''\<rparr>"
    by (simp add: demo_root_def demo_node_def)
  show ?thesis unfolding a b using c by simp
qed

end
